theory Spec2Isabelle
  imports Main
begin

section \<open>Strings\<close>

text \<open>
  Python strings are modelled as \<^typ>\<open>string\<close>; the string methods the game uses
  (\<^verbatim>\<open>strip\<close>, \<^verbatim>\<open>lower\<close>, \<^verbatim>\<open>capitalize\<close>, \<^verbatim>\<open>startswith\<close>)
  are given their ASCII behaviour: a character outside ASCII has no case and is not white space.
  The model is therefore exact on ASCII text only, since Python also trims the white space and
  maps the case of the letters beyond ASCII: what is proved about the text of a line is stated
  for ASCII lines.
\<close>

definition ascii_uppercase :: string where
  "ascii_uppercase = ''ABCDEFGHIJKLMNOPQRSTUVWXYZ''"

definition ascii_lowercase :: string where
  "ascii_lowercase = ''abcdefghijklmnopqrstuvwxyz''"

definition isspace :: "char \<Rightarrow> bool" where
  "isspace c = (c \<in> set [CHR 0x09, CHR 0x0A, CHR 0x0B, CHR 0x0C, CHR 0x0D,
                           CHR 0x1C, CHR 0x1D, CHR 0x1E, CHR 0x1F, CHR 0x20])"

definition lower_char :: "char \<Rightarrow> char" where
  "lower_char c = (case map_of (zip ascii_uppercase ascii_lowercase) c of Some l \<Rightarrow> l | None \<Rightarrow> c)"

definition upper_char :: "char \<Rightarrow> char" where
  "upper_char c = (case map_of (zip ascii_lowercase ascii_uppercase) c of Some u \<Rightarrow> u | None \<Rightarrow> c)"

definition strip :: "string \<Rightarrow> string" where
  "strip s = rev (dropWhile isspace (rev (dropWhile isspace s)))"

definition lower :: "string \<Rightarrow> string" where
  "lower s = map lower_char s"

definition capitalize :: "string \<Rightarrow> string" where
  "capitalize s = (case s of [] \<Rightarrow> [] | c # cs \<Rightarrow> upper_char c # lower cs)"

definition startswith :: "string \<Rightarrow> string \<Rightarrow> bool" where
  "startswith s p = (take (length p) s = p)"

definition nl :: string where
  "nl = [CHR 0x0A]"

definition dq :: string where
  "dq = [CHR 0x22]"

section \<open>Nodes, the object store and the world\<close>

type_synonym addr = nat

text \<open>
  An object reference is an address; \<^verbatim>\<open>None\<close> is \<^term>\<open>None\<close>. The fields of the two
  dataclasses, in declaration order: \<^verbatim>\<open>Guess(parent, animal_name)\<close> and
  \<^verbatim>\<open>Question(parent, question, positive, negative)\<close>.
\<close>

datatype node =
    Guess "addr option" string
  | Question "addr option" string addr addr

type_synonym heap = "node list"

datatype error = EOFError | RecursionError | AttributeError

text \<open>
  The state of a run: the lines still to be read from standard input, the pieces of text printed
  so far, the store of node objects, the global \<^verbatim>\<open>root_node\<close>, and the contents written to
  the file \<^verbatim>\<open>zoo.dat\<close>. An address outside the store stands for an object that is neither
  a \<^verbatim>\<open>Guess\<close> nor a \<^verbatim>\<open>Question\<close>: reading a field of it raises \<^verbatim>\<open>AttributeError\<close>.
  \<^verbatim>\<open>input\<close> raises \<^verbatim>\<open>EOFError\<close> when no line is left. The interrupt handler and failures
  of the file system are not part of the model.
\<close>

record world =
  stdin :: "string list"
  stdout :: "string list"
  heap :: heap
  root_node :: addr
  zoo_dat :: "(heap \<times> addr) list"

definition lookup :: "heap \<Rightarrow> addr \<Rightarrow> node option" where
  "lookup h a = (if a < length h then Some (h ! a) else None)"

definition print :: "string \<Rightarrow> world \<Rightarrow> world" where
  "print s w = w\<lparr>stdout := stdout w @ [s @ nl]\<rparr>"

definition print_end :: "string \<Rightarrow> string \<Rightarrow> world \<Rightarrow> world" where
  "print_end s e w = w\<lparr>stdout := stdout w @ [s @ e]\<rparr>"

definition input :: "world \<Rightarrow> error + (string \<times> world)" where
  "input w = (case stdin w of [] \<Rightarrow> Inl EOFError | l # ls \<Rightarrow> Inr (l, w\<lparr>stdin := ls\<rparr>))"

section \<open>The yes/no prompt\<close>

definition please_answer :: string where
  "please_answer = ''Please answer '' @ dq @ ''Yes'' @ dq @ '' or '' @ dq @ ''No'' @ dq @ ''.''"

function get_yes_or_no :: "string \<Rightarrow> world \<Rightarrow> error + (bool \<times> world)" where
  "get_yes_or_no question w =
     (case input (print_end (question @ '' '') [] w) of
        Inl e \<Rightarrow> Inl e
      | Inr (line, w') \<Rightarrow>
          (let answer = lower (strip line) in
           if startswith ''yes'' answer then Inr (True, w')
           else if startswith ''no'' answer then Inr (False, w')
           else get_yes_or_no question (print please_answer w')))"
  by pat_completeness auto
termination
  by (relation "measure (\<lambda>(q, w). length (stdin w))")
     (auto simp: input_def print_def print_end_def split: list.splits)

declare get_yes_or_no.simps [simp del]

lemma get_yes_or_no_eof:
  "stdin w = [] \<Longrightarrow> get_yes_or_no q w = Inl EOFError"
  by (subst get_yes_or_no.simps) (simp add: input_def print_end_def)

lemma get_yes_or_no_yes:
  "stdin w = l # ls \<Longrightarrow> startswith ''yes'' (lower (strip l)) \<Longrightarrow>
     get_yes_or_no q w = Inr (True, w\<lparr>stdin := ls, stdout := stdout w @ [q @ '' '']\<rparr>)"
  by (subst get_yes_or_no.simps) (simp add: input_def print_end_def)

lemma get_yes_or_no_no:
  "stdin w = l # ls \<Longrightarrow> \<not> startswith ''yes'' (lower (strip l)) \<Longrightarrow>
     startswith ''no'' (lower (strip l)) \<Longrightarrow>
     get_yes_or_no q w = Inr (False, w\<lparr>stdin := ls, stdout := stdout w @ [q @ '' '']\<rparr>)"
  by (subst get_yes_or_no.simps) (simp add: input_def print_end_def)

lemma get_yes_or_no_retry:
  "stdin w = l # ls \<Longrightarrow> \<not> startswith ''yes'' (lower (strip l)) \<Longrightarrow>
     \<not> startswith ''no'' (lower (strip l)) \<Longrightarrow>
     get_yes_or_no q w =
       get_yes_or_no q (w\<lparr>stdin := ls, stdout := stdout w @ [q @ '' '', please_answer @ nl]\<rparr>)"
  by (subst get_yes_or_no.simps) (simp add: input_def print_end_def print_def please_answer_def)

text \<open>
  Every iteration of the prompt loop consumes one line, and the prompt touches nothing but the
  two streams.
\<close>

lemma get_yes_or_no_stdin:
  "get_yes_or_no q w = Inr (b, w') \<Longrightarrow> length (stdin w') < length (stdin w)"
proof (induction "stdin w" arbitrary: w)
  case Nil
  then show ?case
    by (simp add: get_yes_or_no_eof)
next
  case (Cons l ls)
  have st: "stdin w = l # ls"
    using Cons.hyps(2) by simp
  consider (yes) "startswith ''yes'' (lower (strip l))"
    | (no) "\<not> startswith ''yes'' (lower (strip l))" "startswith ''no'' (lower (strip l))"
    | (retry) "\<not> startswith ''yes'' (lower (strip l))" "\<not> startswith ''no'' (lower (strip l))"
    by blast
  then show ?case
  proof cases
    case yes
    with Cons.prems st show ?thesis
      by (auto simp: get_yes_or_no_yes)
  next
    case no
    with Cons.prems st show ?thesis
      by (auto simp: get_yes_or_no_no)
  next
    case retry
    let ?w2 = "w\<lparr>stdin := ls, stdout := stdout w @ [q @ '' '', please_answer @ nl]\<rparr>"
    have "get_yes_or_no q ?w2 = Inr (b, w')"
      using Cons.prems get_yes_or_no_retry [OF st retry] by simp
    then have "length (stdin w') < length (stdin ?w2)"
      by (intro Cons.hyps(1)) simp_all
    then show ?thesis
      using st by simp
  qed
qed

lemma get_yes_or_no_frame:
  "get_yes_or_no q w = Inr (b, w') \<Longrightarrow>
     heap w' = heap w \<and> root_node w' = root_node w \<and> zoo_dat w' = zoo_dat w"
proof (induction "stdin w" arbitrary: w)
  case Nil
  then show ?case
    by (simp add: get_yes_or_no_eof)
next
  case (Cons l ls)
  have st: "stdin w = l # ls"
    using Cons.hyps(2) by simp
  consider (yes) "startswith ''yes'' (lower (strip l))"
    | (no) "\<not> startswith ''yes'' (lower (strip l))" "startswith ''no'' (lower (strip l))"
    | (retry) "\<not> startswith ''yes'' (lower (strip l))" "\<not> startswith ''no'' (lower (strip l))"
    by blast
  then show ?case
  proof cases
    case yes
    with Cons.prems st show ?thesis
      by (auto simp: get_yes_or_no_yes)
  next
    case no
    with Cons.prems st show ?thesis
      by (auto simp: get_yes_or_no_no)
  next
    case retry
    let ?w2 = "w\<lparr>stdin := ls, stdout := stdout w @ [q @ '' '', please_answer @ nl]\<rparr>"
    have "get_yes_or_no q ?w2 = Inr (b, w')"
      using Cons.prems get_yes_or_no_retry [OF st retry] by simp
    then have "heap w' = heap ?w2 \<and> root_node w' = root_node ?w2 \<and> zoo_dat w' = zoo_dat ?w2"
      by (intro Cons.hyps(1)) simp_all
    then show ?thesis
      by simp
  qed
qed

section \<open>The free-text prompts\<close>

function get_new_animal_name :: "world \<Rightarrow> error + (string \<times> world)" where
  "get_new_animal_name w =
     (case input (print_end ''What animal were you thinking of? '' [] w) of
        Inl e \<Rightarrow> Inl e
      | Inr (line, w1) \<Rightarrow>
          (let animal_name = lower (strip line) in
           if animal_name = [] then get_new_animal_name w1
           else (case get_yes_or_no (''Your animal was '' @ dq @ animal_name @ dq @ ''?'') w1 of
                   Inl e \<Rightarrow> Inl e
                 | Inr (ok, w2) \<Rightarrow> if ok then Inr (animal_name, w2) else get_new_animal_name w2)))"
  by pat_completeness auto
termination
proof (relation "measure (\<lambda>w. length (stdin w))", goal_cases)
  case 1
  show ?case by simp
next
  case (2 w x line w1 animal)
  then show ?case
    by (auto simp: input_def print_end_def split: list.splits)
next
  case (3 w x line w1 animal y ok w2)
  from 3(1,2) have "length (stdin w1) < length (stdin w)"
    by (auto simp: input_def print_end_def split: list.splits)
  moreover from 3 have "length (stdin w2) < length (stdin w1)"
    using get_yes_or_no_stdin [of _ w1 ok w2] by simp
  ultimately show ?case by simp
qed

definition what_statement :: "string \<Rightarrow> string \<Rightarrow> string" where
  "what_statement old_animal_name new_animal_name =
     ''What statement would be TRUE for '' @ dq @ new_animal_name @ dq @
     '' but NOT TRUE for '' @ dq @ old_animal_name @ dq @ ''? ''"

definition so_if_i_asked :: "string \<Rightarrow> string \<Rightarrow> string \<Rightarrow> string" where
  "so_if_i_asked question old_animal_name new_animal_name =
     ''So if I asked you '' @ dq @ question @ ''?'' @ dq @
     '', your answer would be true for '' @ dq @ new_animal_name @ dq @
     '', but false for '' @ dq @ old_animal_name @ dq @ ''.''"

text \<open>The \<^verbatim>\<open>while True\<close> loop of \<^verbatim>\<open>get_question\<close>.\<close>

function get_question_loop :: "string \<Rightarrow> string \<Rightarrow> world \<Rightarrow> error + (string \<times> world)" where
  "get_question_loop old_animal_name new_animal_name w =
     (case input (print_end (what_statement old_animal_name new_animal_name) [] w) of
        Inl e \<Rightarrow> Inl e
      | Inr (line, w1) \<Rightarrow>
          (let stripped = strip line in
           if stripped = [] then get_question_loop old_animal_name new_animal_name w1
           else
             (let capitalized = capitalize (lower stripped);
                  question = (if last capitalized = CHR ''?'' then butlast capitalized
                              else capitalized);
                  w2 = print (so_if_i_asked question old_animal_name new_animal_name) (print [] w1)
              in case get_yes_or_no ''Is that right?'' w2 of
                   Inl e \<Rightarrow> Inl e
                 | Inr (ok, w3) \<Rightarrow>
                     if ok then Inr (question, w3)
                     else get_question_loop old_animal_name new_animal_name w3)))"
  by pat_completeness auto
termination
proof (relation "measure (\<lambda>(old, new, w). length (stdin w))", goal_cases)
  case 1
  show ?case by simp
next
  case (2 old new w x line w1 stripped)
  then show ?case
    by (auto simp: input_def print_end_def split: list.splits)
next
  case (3 old new w x line w1 stripped capitalized question w2 y ok w3)
  from 3(1,2) have "length (stdin w1) < length (stdin w)"
    by (auto simp: input_def print_end_def split: list.splits)
  moreover from 3 have "length (stdin w3) < length (stdin w2)"
    using get_yes_or_no_stdin [of _ w2 ok w3] by simp
  moreover from 3 have "stdin w2 = stdin w1"
    by (simp add: print_def)
  ultimately show ?case by simp
qed

definition get_question :: "string \<Rightarrow> string \<Rightarrow> world \<Rightarrow> error + (string \<times> world)" where
  "get_question old_animal_name new_animal_name w =
     get_question_loop old_animal_name new_animal_name
       (print (''I need to know how to tell the difference between '' @ dq @ new_animal_name @ dq @
               '' and '' @ dq @ old_animal_name @ dq @ ''.'')
          (print [] w))"

section \<open>Equality of nodes\<close>

text \<open>
  \<^verbatim>\<open>Guess\<close> and \<^verbatim>\<open>Question\<close> are dataclasses, so \<^verbatim>\<open>==\<close> on two nodes is the generated
  \<^verbatim>\<open>__eq__\<close>: when both operands have the same class, their field tuples are compared from
  left to right, stopping at the first pair that differs; a pair of identical objects counts as
  equal without a call; operands of different classes (and \<^verbatim>\<open>None\<close>) compare by identity.
  Each call of \<^verbatim>\<open>__eq__\<close> takes a stack frame: \<open>d\<close> is the number of frames left, and
  \<^term>\<open>None\<close> stands for the \<^verbatim>\<open>RecursionError\<close> raised when they run out.
\<close>

fun py_eq :: "nat \<Rightarrow> heap \<Rightarrow> addr option \<Rightarrow> addr option \<Rightarrow> bool option" where
  "py_eq d h (Some a) (Some b) =
     (case (lookup h a, lookup h b) of
        (Some (Guess p1 n1), Some (Guess p2 n2)) \<Rightarrow>
          (case d of
             0 \<Rightarrow> None
           | Suc k \<Rightarrow>
               (case (if p1 = p2 then Some True else py_eq k h p1 p2) of
                  None \<Rightarrow> None
                | Some False \<Rightarrow> Some False
                | Some True \<Rightarrow> Some (n1 = n2)))
      | (Some (Question p1 q1 pos1 neg1), Some (Question p2 q2 pos2 neg2)) \<Rightarrow>
          (case d of
             0 \<Rightarrow> None
           | Suc k \<Rightarrow>
               (case (if p1 = p2 then Some True else py_eq k h p1 p2) of
                  None \<Rightarrow> None
                | Some False \<Rightarrow> Some False
                | Some True \<Rightarrow>
                    if q1 \<noteq> q2 then Some False
                    else
                      (case (if pos1 = pos2 then Some True
                             else py_eq k h (Some pos1) (Some pos2)) of
                         None \<Rightarrow> None
                       | Some False \<Rightarrow> Some False
                       | Some True \<Rightarrow>
                           if neg1 = neg2 then Some True
                           else py_eq k h (Some neg1) (Some neg2))))
      | _ \<Rightarrow> Some (a = b))"
| "py_eq d h v w = Some (v = w)"

text \<open>The interpreter's default limit on the depth of the stack.\<close>

definition recursion_limit :: nat where
  "recursion_limit = 1000"

section \<open>Teaching\<close>

text \<open>
  \<^verbatim>\<open>colored\<close> belongs to the external library termcolor; the model keeps the text and leaves
  the colour codes out.
\<close>

definition colored :: "string \<Rightarrow> string \<Rightarrow> string" where
  "colored text color = text"

definition alloc :: "node \<Rightarrow> heap \<Rightarrow> addr \<times> heap" where
  "alloc n h = (length h, h @ [n])"

text \<open>
  Lines 155 to 160 of \<^verbatim>\<open>add_new_question\<close>: the slot of the parent that compares equal to
  the old guess is given the new question, the negative slot being tried first.
\<close>

fun parent_of :: "node \<Rightarrow> addr option" where
  "parent_of (Guess p _) = p"
| "parent_of (Question p _ _ _) = p"

definition replace_in_parent :: "addr \<Rightarrow> addr \<Rightarrow> heap \<Rightarrow> error + heap" where
  "replace_in_parent old_guess new_question h =
     (case lookup h old_guess of
        None \<Rightarrow> Inl AttributeError
      | Some n \<Rightarrow>
          (case parent_of n of
             None \<Rightarrow> Inr h
           | Some parent \<Rightarrow>
               (case lookup h parent of
                  Some (Question pp q pos neg) \<Rightarrow>
                    (case py_eq recursion_limit h (Some neg) (Some old_guess) of
                       None \<Rightarrow> Inl RecursionError
                     | Some True \<Rightarrow> Inr (h[parent := Question pp q pos new_question])
                     | Some False \<Rightarrow>
                         (case py_eq recursion_limit h (Some pos) (Some old_guess) of
                            None \<Rightarrow> Inl RecursionError
                          | Some True \<Rightarrow> Inr (h[parent := Question pp q new_question neg])
                          | Some False \<Rightarrow> Inr h))
                | _ \<Rightarrow> Inr h)))"

definition set_parent :: "addr \<Rightarrow> addr option \<Rightarrow> heap \<Rightarrow> heap" where
  "set_parent a p h =
     (case lookup h a of
        Some (Guess _ n) \<Rightarrow> h[a := Guess p n]
      | Some (Question _ q pos neg) \<Rightarrow> h[a := Question p q pos neg]
      | None \<Rightarrow> h)"

definition add_new_question :: "addr \<Rightarrow> world \<Rightarrow> error + ((addr \<times> addr) \<times> world)" where
  "add_new_question old_guess w =
     (case lookup (heap w) old_guess of
        Some (Guess _ old_animal_name) \<Rightarrow>
          (case get_new_animal_name
                  (print []
                    (print (colored (''Ok, so it's not a '' @ old_animal_name @ ''. I give up.'') ''red'')
                      (print [] w))) of
             Inl e \<Rightarrow> Inl e
           | Inr (new_animal_name, w1) \<Rightarrow>
               (case get_question old_animal_name new_animal_name w1 of
                  Inl e \<Rightarrow> Inl e
                | Inr (question, w2) \<Rightarrow>
                    (let (new_guess, h1) = alloc (Guess None new_animal_name) (heap w2);
                         (new_question, h2) = alloc (Question None question new_guess old_guess) h1
                     in case replace_in_parent old_guess new_question h2 of
                          Inl e \<Rightarrow> Inl e
                        | Inr h3 \<Rightarrow>
                            Inr ((new_question, new_guess),
                                 w2\<lparr>heap := set_parent old_guess (Some new_question)
                                               (set_parent new_guess (Some new_question) h3)\<rparr>))))
      | _ \<Rightarrow> Inl AttributeError)"

section \<open>Persistence\<close>

text \<open>
  \<^verbatim>\<open>zoo.dat\<close> is modelled by the list of the contents written to it, the latest last: each
  \<^verbatim>\<open>save_data\<close> pickles the object graph of \<^verbatim>\<open>root_node\<close>, kept here as the store together
  with the root's address.
\<close>

definition save_data :: "world \<Rightarrow> world" where
  "save_data w = w\<lparr>zoo_dat := zoo_dat w @ [(heap w, root_node w)]\<rparr>"

definition load_data :: "world \<Rightarrow> addr \<times> world" where
  "load_data w =
     (case rev (zoo_dat w) of
        [] \<Rightarrow> (case alloc (Guess None ''dog'') (heap w) of (a, h) \<Rightarrow> (a, w\<lparr>heap := h\<rparr>))
      | (h, r) # _ \<Rightarrow> (r, w\<lparr>heap := h\<rparr>))"

section \<open>Playing a round\<close>

definition do_guess :: "addr \<Rightarrow> world \<Rightarrow> error + world" where
  "do_guess guess w =
     (case lookup (heap w) guess of
        Some (Guess parent animal_name) \<Rightarrow>
          (case get_yes_or_no (''Is your animal a '' @ animal_name @ ''?'') w of
             Inl e \<Rightarrow> Inl e
           | Inr (True, w1) \<Rightarrow>
               Inr (print (colored ''Yay! I guessed right!'' ''green'') (print [] w1))
           | Inr (False, w1) \<Rightarrow>
               (let is_root = (parent = None) in
                case add_new_question guess w1 of
                  Inl e \<Rightarrow> Inl e
                | Inr ((new_question, new_guess), w2) \<Rightarrow>
                    Inr (save_data (if is_root then w2\<lparr>root_node := new_question\<rparr> else w2))))
      | _ \<Rightarrow> Inl AttributeError)"

definition do_question :: "addr \<Rightarrow> world \<Rightarrow> error + (addr \<times> world)" where
  "do_question q w =
     (case lookup (heap w) q of
        Some (Question _ text pos neg) \<Rightarrow>
          (case get_yes_or_no (text @ ''?'') w of
             Inl e \<Rightarrow> Inl e
           | Inr (answer, w1) \<Rightarrow> Inr (if answer then pos else neg, w1))
      | _ \<Rightarrow> Inl AttributeError)"

text \<open>
  \<^verbatim>\<open>play\<close> calls itself once for each Question on the way, so a round nests as deep as its
  path is long. Every call of a function of the program takes a stack frame, and the interpreter
  raises \<^verbatim>\<open>RecursionError\<close> when none is left. Here \<open>d\<close> is the number of frames left when
  \<^verbatim>\<open>play\<close> is called: it takes one itself, and asking about a node takes two more
  (\<^verbatim>\<open>do_question\<close> or \<^verbatim>\<open>do_guess\<close>, and the \<^verbatim>\<open>get_yes_or_no\<close> it calls). The further
  frames of a teach below \<^verbatim>\<open>do_guess\<close> are not counted.
\<close>

fun play :: "nat \<Rightarrow> addr \<Rightarrow> world \<Rightarrow> error + world" where
  "play 0 node w = Inl RecursionError"
| "play (Suc d) node w =
     (case lookup (heap w) node of
        Some (Guess _ _) \<Rightarrow> if d < 2 then Inl RecursionError else do_guess node w
      | Some (Question _ _ _ _) \<Rightarrow>
          if d < 2 then Inl RecursionError
          else (case do_question node w of
                  Inl e \<Rightarrow> Inl e
                | Inr (next_node, w1) \<Rightarrow> play d next_node w1)
      | None \<Rightarrow> Inr (print ''Don't know how to deal with node!'' w))"

text \<open>
  The script: load the tree, print the banner, play one round. The script runs in a frame of its
  own, so \<^verbatim>\<open>play\<close> starts with one frame less than the limit.
\<close>

definition main :: "world \<Rightarrow> error + world" where
  "main w =
     (case load_data w of
        (r, w1) \<Rightarrow>
          play (recursion_limit - 1) r
            (print ''Think of an animal, and I'll try and guess what it is.''
              (print ''------------------------------------------------------''
                (print [] (w1\<lparr>root_node := r\<rparr>)))))"

section \<open>The question text as the specification words it\<close>

text \<open>
  The characters by their codes: white space, capital and small letters of ASCII, and the two
  case maps.
\<close>

definition ascii :: "string \<Rightarrow> bool" where
  "ascii s = list_all (\<lambda>c. (of_char c :: nat) < 128) s"

definition white_space :: "char \<Rightarrow> bool" where
  "white_space c = (let n = (of_char c :: nat) in (9 \<le> n \<and> n \<le> 13) \<or> (28 \<le> n \<and> n \<le> 32))"

definition capital :: "char \<Rightarrow> bool" where
  "capital c = (let n = (of_char c :: nat) in 65 \<le> n \<and> n \<le> 90)"

definition small :: "char \<Rightarrow> bool" where
  "small c = (let n = (of_char c :: nat) in 97 \<le> n \<and> n \<le> 122)"

definition to_lower :: "char \<Rightarrow> char" where
  "to_lower c = (if capital c then char_of ((of_char c :: nat) + 32) else c)"

definition to_upper :: "char \<Rightarrow> char" where
  "to_upper c = (if small c then char_of ((of_char c :: nat) - 32) else c)"

text \<open>
  The question text kept for a trimmed input: every character lowercased, then the first
  character capitalized, then at most one trailing question mark removed.
\<close>

definition stored_text :: "string \<Rightarrow> string" where
  "stored_text t =
     (let lowered = map to_lower t;
          capitalized = (case lowered of [] \<Rightarrow> [] | c # cs \<Rightarrow> to_upper c # cs)
      in if capitalized \<noteq> [] \<and> last capitalized = CHR ''?'' then butlast capitalized
         else capitalized)"

section \<open>The path of a round as the specification words it\<close>

text \<open>
  The nodes met from \<open>node\<close> when each answer picks the positive child on yes and the negative
  child on no, ending at a Guess; \<^term>\<open>None\<close> when the answers do not end at a Guess.
\<close>

fun path :: "heap \<Rightarrow> addr \<Rightarrow> bool list \<Rightarrow> addr list option" where
  "path h node [] = (case lookup h node of Some (Guess _ _) \<Rightarrow> Some [node] | _ \<Rightarrow> None)"
| "path h node (answer # answers) =
     (case lookup h node of
        Some (Question _ _ pos neg) \<Rightarrow>
          map_option ((#) node) (path h (if answer then pos else neg) answers)
      | _ \<Rightarrow> None)"

text \<open>A line that the yes/no prompt takes as the given answer.\<close>

definition says :: "string \<Rightarrow> bool \<Rightarrow> bool" where
  "says line answer =
     (if answer then startswith ''yes'' (lower (strip line))
      else \<not> startswith ''yes'' (lower (strip line)) \<and> startswith ''no'' (lower (strip line)))"

text \<open>What the prompt prints for a Question node.\<close>

fun asked :: "heap \<Rightarrow> addr \<Rightarrow> string" where
  "asked h node = (case lookup h node of Some (Question _ text _ _) \<Rightarrow> text @ ''? '' | _ \<Rightarrow> [])"

section \<open>The dialogue about the question as the specification words it\<close>

text \<open>
  The yes/no prompt reads lines until one is an answer. The question prompt skips blank lines,
  takes the next line as the question and asks whether it is right: on yes that line is the
  confirmed one, on no the prompt starts again with the lines that follow.
\<close>

fun first_answer :: "string list \<Rightarrow> (bool \<times> string list) option" where
  "first_answer [] = None"
| "first_answer (l # ls) =
     (if says l True then Some (True, ls)
      else if says l False then Some (False, ls)
      else first_answer ls)"

lemma first_answer_shorter:
  "first_answer ls = Some (b, rest) \<Longrightarrow> length rest < length ls"
  by (induction ls) (auto split: if_splits)

function confirmed_line :: "string list \<Rightarrow> (string \<times> string list) option" where
  "confirmed_line [] = None"
| "confirmed_line (l # ls) =
     (if list_all white_space l then confirmed_line ls
      else (case first_answer ls of
              None \<Rightarrow> None
            | Some (yes, rest) \<Rightarrow> if yes then Some (l, rest) else confirmed_line rest))"
  by pat_completeness auto
termination
  by (relation "measure length") (auto dest: first_answer_shorter)

section \<open>Unfolding the prompt loops\<close>

declare get_new_animal_name.simps [simp del] get_question_loop.simps [simp del]

lemma get_new_animal_name_eof:
  "stdin w = [] \<Longrightarrow> get_new_animal_name w = Inl EOFError"
  by (subst get_new_animal_name.simps) (simp add: input_def print_end_def)

lemma get_new_animal_name_blank:
  "stdin w = line # ls \<Longrightarrow> lower (strip line) = [] \<Longrightarrow>
     get_new_animal_name w =
       get_new_animal_name
         (w\<lparr>stdout := stdout w @ [''What animal were you thinking of? ''], stdin := ls\<rparr>)"
  by (subst get_new_animal_name.simps) (simp add: input_def print_end_def)

lemma get_new_animal_name_line:
  "stdin w = line # ls \<Longrightarrow> lower (strip line) \<noteq> [] \<Longrightarrow>
     get_new_animal_name w =
       (case get_yes_or_no (''Your animal was '' @ dq @ lower (strip line) @ dq @ ''?'')
               (w\<lparr>stdout := stdout w @ [''What animal were you thinking of? ''], stdin := ls\<rparr>) of
          Inl e \<Rightarrow> Inl e
        | Inr (ok, w2) \<Rightarrow> if ok then Inr (lower (strip line), w2) else get_new_animal_name w2)"
  by (subst get_new_animal_name.simps) (simp add: input_def print_end_def Let_def)

lemma get_new_animal_name_frame:
  "get_new_animal_name w = Inr (n, w') \<Longrightarrow>
     heap w' = heap w \<and> root_node w' = root_node w \<and> zoo_dat w' = zoo_dat w"
proof (induction "length (stdin w)" arbitrary: w rule: less_induct)
  case less
  show ?case
  proof (cases "stdin w")
    case Nil
    with less.prems show ?thesis
      by (simp add: get_new_animal_name_eof)
  next
    case (Cons line ls)
    let ?w1 = "w\<lparr>stdout := stdout w @ [''What animal were you thinking of? ''], stdin := ls\<rparr>"
    show ?thesis
    proof (cases "lower (strip line) = []")
      case True
      with less.prems Cons have "get_new_animal_name ?w1 = Inr (n, w')"
        by (simp add: get_new_animal_name_blank)
      from less.hyps [OF _ this] Cons show ?thesis by simp
    next
      case False
      with less.prems Cons obtain ok w2 where
        yn: "get_yes_or_no (''Your animal was '' @ dq @ lower (strip line) @ dq @ ''?'') ?w1 = Inr (ok, w2)"
        and rest: "if ok then (n, w') = (lower (strip line), w2) else get_new_animal_name w2 = Inr (n, w')"
        by (auto simp: get_new_animal_name_line split: sum.splits if_splits)
      note fr2 = get_yes_or_no_frame [OF yn] and len2 = get_yes_or_no_stdin [OF yn]
      show ?thesis
      proof (cases ok)
        case True
        with rest fr2 show ?thesis by simp
      next
        case False
        with rest have "get_new_animal_name w2 = Inr (n, w')" by simp
        from less.hyps [OF _ this] len2 fr2 Cons show ?thesis by simp
      qed
    qed
  qed
qed

text \<open>Lines 189 to 191 of \<^verbatim>\<open>get_question\<close>, applied to the trimmed, non-empty line.\<close>

definition normalised :: "string \<Rightarrow> string" where
  "normalised stripped =
     (let capitalized = capitalize (lower stripped)
      in if last capitalized = CHR ''?'' then butlast capitalized else capitalized)"

lemma get_question_loop_eof:
  "stdin w = [] \<Longrightarrow> get_question_loop old new w = Inl EOFError"
  by (subst get_question_loop.simps) (simp add: input_def print_end_def)

lemma get_question_loop_blank:
  "stdin w = line # ls \<Longrightarrow> strip line = [] \<Longrightarrow>
     get_question_loop old new w =
       get_question_loop old new (w\<lparr>stdout := stdout w @ [what_statement old new], stdin := ls\<rparr>)"
  by (subst get_question_loop.simps) (simp add: input_def print_end_def)

lemma get_question_loop_line:
  "stdin w = line # ls \<Longrightarrow> strip line \<noteq> [] \<Longrightarrow>
     get_question_loop old new w =
       (case get_yes_or_no ''Is that right?''
               (w\<lparr>stdout := stdout w @ [what_statement old new],
                   stdin := ls,
                   stdout := stdout w @ [what_statement old new, nl,
                                         so_if_i_asked (normalised (strip line)) old new @ nl]\<rparr>) of
          Inl e \<Rightarrow> Inl e
        | Inr (ok, w3) \<Rightarrow>
            if ok then Inr (normalised (strip line), w3) else get_question_loop old new w3)"
  unfolding normalised_def Let_def
  by (subst get_question_loop.simps) (simp add: input_def print_end_def print_def Let_def)

section \<open>What the prompts consume and what they return\<close>

lemma get_yes_or_no_consumes:
  "get_yes_or_no q w = Inr (b, w') \<Longrightarrow> \<exists>used. used \<noteq> [] \<and> stdin w = used @ stdin w'"
proof (induction "stdin w" arbitrary: w)
  case Nil
  then show ?case
    by (simp add: get_yes_or_no_eof)
next
  case (Cons l ls)
  have st: "stdin w = l # ls"
    using Cons.hyps(2) by simp
  consider (yes) "startswith ''yes'' (lower (strip l))"
    | (no) "\<not> startswith ''yes'' (lower (strip l))" "startswith ''no'' (lower (strip l))"
    | (retry) "\<not> startswith ''yes'' (lower (strip l))" "\<not> startswith ''no'' (lower (strip l))"
    by blast
  then show ?case
  proof cases
    case yes
    with Cons.prems st show ?thesis
      by (auto simp: get_yes_or_no_yes)
  next
    case no
    with Cons.prems st show ?thesis
      by (auto simp: get_yes_or_no_no)
  next
    case retry
    let ?w2 = "w\<lparr>stdin := ls, stdout := stdout w @ [q @ '' '', please_answer @ nl]\<rparr>"
    have "get_yes_or_no q ?w2 = Inr (b, w')"
      using Cons.prems get_yes_or_no_retry [OF st retry] by simp
    then have "\<exists>used. used \<noteq> [] \<and> stdin ?w2 = used @ stdin w'"
      by (intro Cons.hyps(1)) simp_all
    then obtain used where "ls = used @ stdin w'"
      by auto
    then have "l # used \<noteq> [] \<and> stdin w = (l # used) @ stdin w'"
      using st by simp
    then show ?thesis
      by blast
  qed
qed

lemma get_question_loop_result:
  "get_question_loop old new w = Inr (q, w') \<Longrightarrow>
     heap w' = heap w \<and> root_node w' = root_node w \<and> zoo_dat w' = zoo_dat w \<and>
     (\<exists>pre line post w2.
        stdin w = pre @ line # post \<and> strip line \<noteq> [] \<and> stdin w2 = post \<and>
        get_yes_or_no ''Is that right?'' w2 = Inr (True, w') \<and> q = normalised (strip line))"
proof (induction "length (stdin w)" arbitrary: w rule: less_induct)
  case less
  show ?case
  proof (cases "stdin w")
    case Nil
    with less.prems show ?thesis
      by (simp add: get_question_loop_eof)
  next
    case (Cons line ls)
    show ?thesis
    proof (cases "strip line = []")
      case True
      let ?w1 = "w\<lparr>stdout := stdout w @ [what_statement old new], stdin := ls\<rparr>"
      from True less.prems Cons have rec: "get_question_loop old new ?w1 = Inr (q, w')"
        by (simp add: get_question_loop_blank)
      have "length (stdin ?w1) < length (stdin w)"
        using Cons by simp
      from less.hyps [OF this rec] obtain pre l post w2 where
        fr: "heap w' = heap w" "root_node w' = root_node w" "zoo_dat w' = zoo_dat w"
        and sp: "ls = pre @ l # post" "strip l \<noteq> []" "stdin w2 = post"
          "get_yes_or_no ''Is that right?'' w2 = Inr (True, w')" "q = normalised (strip l)"
        by auto
      from sp(1) Cons have "stdin w = (line # pre) @ l # post"
        by simp
      with fr sp(2-) show ?thesis
        by blast
    next
      case False
      let ?w2 = "w\<lparr>stdout := stdout w @ [what_statement old new], stdin := ls,
                    stdout := stdout w @ [what_statement old new, nl,
                                so_if_i_asked (normalised (strip line)) old new @ nl]\<rparr>"
      from False less.prems Cons obtain ok w3 where
        yn: "get_yes_or_no ''Is that right?'' ?w2 = Inr (ok, w3)"
        and rest: "if ok then (q, w') = (normalised (strip line), w3)
                   else get_question_loop old new w3 = Inr (q, w')"
        by (auto simp: get_question_loop_line split: sum.splits if_splits)
      note fr2 = get_yes_or_no_frame [OF yn] and len2 = get_yes_or_no_stdin [OF yn]
      show ?thesis
      proof (cases ok)
        case True
        with rest have q: "q = normalised (strip line)" and w': "w3 = w'"
          by simp_all
        have "stdin w = [] @ line # ls" "stdin ?w2 = ls"
          using Cons by simp_all
        with False yn True q w' fr2 show ?thesis
          by (intro conjI exI [of _ "[]"] exI [of _ line] exI [of _ ls] exI [of _ ?w2]) simp_all
      next
        case no: False
        with rest have rec: "get_question_loop old new w3 = Inr (q, w')"
          by simp
        have "length (stdin w3) < length (stdin w)"
          using len2 Cons by simp
        from less.hyps [OF this rec] obtain pre l post w2 where
          fr: "heap w' = heap w3" "root_node w' = root_node w3" "zoo_dat w' = zoo_dat w3"
          and sp: "stdin w3 = pre @ l # post" "strip l \<noteq> []" "stdin w2 = post"
            "get_yes_or_no ''Is that right?'' w2 = Inr (True, w')" "q = normalised (strip l)"
          by auto
        from get_yes_or_no_consumes [OF yn] obtain used where "ls = used @ stdin w3"
          by auto
        with sp(1) Cons have "stdin w = (line # used @ pre) @ l # post"
          by simp
        with fr fr2 sp(2-) show ?thesis
          by (intro conjI exI [of _ "line # used @ pre"] exI [of _ l] exI [of _ post]
                exI [of _ w2]) simp_all
      qed
    qed
  qed
qed

section \<open>Example trees\<close>

text \<open>
  A reference held by an object is \<^verbatim>\<open>None\<close> or refers to an object that exists: it lies in
  the store.
\<close>

definition in_store :: "heap \<Rightarrow> addr option \<Rightarrow> bool" where
  "in_store h r = (case r of None \<Rightarrow> True | Some a \<Rightarrow> a < length h)"

text \<open>
  The parent-link invariant at one node: the two children of a Question node point back to it.
\<close>

definition parent_links :: "heap \<Rightarrow> addr \<Rightarrow> bool" where
  "parent_links h a =
     (case lookup h a of
        Some (Question _ _ pos neg) \<Rightarrow>
          map_option parent_of (lookup h pos) = Some (Some a) \<and>
          map_option parent_of (lookup h neg) = Some (Some a)
      | _ \<Rightarrow> True)"

definition cat_dog_tree :: heap where
  "cat_dog_tree =
     [Guess (Some 2) ''dog'', Guess (Some 2) ''cat'', Question None ''Does it meow'' 1 0]"

definition dog_dog_tree :: heap where
  "dog_dog_tree =
     [Guess (Some 2) ''dog'', Guess (Some 2) ''dog'', Question None ''Is it big'' 1 0]"

definition three_animal_tree :: heap where
  "three_animal_tree =
     [Guess (Some 4) ''dog'', Guess (Some 2) ''cat'', Question None ''Does it meow'' 1 4,
      Guess (Some 4) ''bird'', Question (Some 2) ''Can it fly'' 3 0]"

text \<open>
  A tree of \<open>n\<close> questions in a row: question \<open>i\<close> lives at address \<open>2 * i\<close>, its negative
  child, a Guess, at the next address, and its positive child is question \<open>i + 1\<close>, or the
  last Guess after the last question. Every child points back to its parent.
\<close>

definition chain_block :: "nat \<Rightarrow> node list" where
  "chain_block i =
     [Question (if i = 0 then None else Some (2 * (i - 1))) ''Is it big''
        (Suc (Suc (2 * i))) (Suc (2 * i)),
      Guess (Some (2 * i)) ''dog'']"

fun chain_blocks :: "nat \<Rightarrow> node list" where
  "chain_blocks 0 = []"
| "chain_blocks (Suc n) = chain_blocks n @ chain_block n"

definition chain :: "nat \<Rightarrow> heap" where
  "chain n = chain_blocks n @ [Guess (if n = 0 then None else Some (2 * (n - 1))) ''cat'']"

definition start :: "string list \<Rightarrow> heap \<Rightarrow> addr \<Rightarrow> world" where
  "start lines h r = \<lparr>stdin = lines, stdout = [], heap = h, root_node = r, zoo_dat = []\<rparr>"

section \<open>What a teach does to the store\<close>

text \<open>The three lines printed when the game gives up.\<close>

definition giving_up :: "string \<Rightarrow> world \<Rightarrow> world" where
  "giving_up old_animal_name w =
     print [] (print (colored (''Ok, so it's not a '' @ old_animal_name @ ''. I give up.'') ''red'')
       (print [] w))"

lemma get_question_frame:
  assumes "get_question old new w = Inr (q, w')"
  shows "heap w' = heap w \<and> root_node w' = root_node w \<and> zoo_dat w' = zoo_dat w"
proof -
  let ?w0 = "print (''I need to know how to tell the difference between '' @ dq @ new @ dq @
                    '' and '' @ dq @ old @ dq @ ''.'') (print [] w)"
  have "get_question_loop old new ?w0 = Inr (q, w')"
    using assms unfolding get_question_def .
  from get_question_loop_result [OF this]
  have "heap w' = heap ?w0 \<and> root_node w' = root_node ?w0 \<and> zoo_dat w' = zoo_dat ?w0"
    by blast
  then show ?thesis
    by (simp add: print_def)
qed

lemma add_new_question_unfold:
  assumes "add_new_question g w = Inr ((nq, ng), w')"
  shows "\<exists>par old_name new_name w1 q w2 h3.
           lookup (heap w) g = Some (Guess par old_name) \<and>
           get_new_animal_name (giving_up old_name w) = Inr (new_name, w1) \<and>
           get_question old_name new_name w1 = Inr (q, w2) \<and>
           heap w2 = heap w \<and> root_node w2 = root_node w \<and> zoo_dat w2 = zoo_dat w \<and>
           ng = length (heap w) \<and> nq = Suc (length (heap w)) \<and>
           replace_in_parent g nq (heap w @ [Guess None new_name, Question None q ng g]) = Inr h3 \<and>
           w' = w2\<lparr>heap := set_parent g (Some nq) (set_parent ng (Some nq) h3)\<rparr>"
proof -
  from assms obtain par old_name where g: "lookup (heap w) g = Some (Guess par old_name)"
    by (auto simp: add_new_question_def split: option.splits node.splits)
  from assms g obtain new_name w1 where
    name: "get_new_animal_name (giving_up old_name w) = Inr (new_name, w1)"
    by (auto simp: add_new_question_def giving_up_def split: sum.splits)
  from assms g name obtain q w2 where
    qu: "get_question old_name new_name w1 = Inr (q, w2)"
    by (auto simp: add_new_question_def giving_up_def split: sum.splits)
  have fr: "heap w2 = heap w \<and> root_node w2 = root_node w \<and> zoo_dat w2 = zoo_dat w"
    using get_new_animal_name_frame [OF name] get_question_frame [OF qu]
    by (simp add: giving_up_def print_def)
  from assms g name qu fr obtain h3 where
    "ng = length (heap w)" "nq = Suc (length (heap w))"
    "replace_in_parent g nq (heap w @ [Guess None new_name, Question None q ng g]) = Inr h3"
    "w' = w2\<lparr>heap := set_parent g (Some nq) (set_parent ng (Some nq) h3)\<rparr>"
    by (auto simp: add_new_question_def giving_up_def alloc_def split: sum.splits)
  with g name qu fr show ?thesis
    by blast
qed

lemma replace_in_parent_shape:
  assumes "replace_in_parent g nq h = Inr h3"
  shows "h3 = h \<or>
         (\<exists>n p pp q pos neg.
            lookup h g = Some n \<and> parent_of n = Some p \<and>
            lookup h p = Some (Question pp q pos neg) \<and>
            (h3 = h[p := Question pp q pos nq] \<or> h3 = h[p := Question pp q nq neg]))"
  using assms
  by (auto simp: replace_in_parent_def split: option.splits node.splits bool.splits)

lemma replace_in_parent_length:
  "replace_in_parent g nq h = Inr h3 \<Longrightarrow> length h3 = length h"
  by (auto dest: replace_in_parent_shape)

lemma replace_in_parent_root:
  "lookup h g = Some n \<Longrightarrow> parent_of n = None \<Longrightarrow> replace_in_parent g nq h = Inr h"
  by (simp add: replace_in_parent_def)

lemma length_set_parent [simp]: "length (set_parent a p h) = length h"
  by (simp add: set_parent_def split: option.splits node.splits)

lemma lookup_set_parent_other:
  "a \<noteq> b \<Longrightarrow> lookup (set_parent a p h) b = lookup h b"
  by (simp add: set_parent_def lookup_def split: option.splits node.splits)

lemma lookup_set_parent_Guess:
  "lookup h a = Some (Guess p0 n) \<Longrightarrow> lookup (set_parent a p h) a = Some (Guess p n)"
  by (auto simp: set_parent_def lookup_def split: if_splits)

lemma lookup_append_old:
  "a < length h \<Longrightarrow> lookup (h @ xs) a = lookup h a"
  by (simp add: lookup_def nth_append)

lemma lookup_Some_less: "lookup h a = Some n \<Longrightarrow> a < length h"
  by (simp add: lookup_def split: if_splits)

lemma lookup_update_other: "a \<noteq> b \<Longrightarrow> lookup (h[a := n]) b = lookup h b"
  by (simp add: lookup_def)

lemma taught_store:
  assumes g: "lookup h g = Some (Guess par old_name)"
    and par: "in_store h par"
    and rep: "replace_in_parent g (Suc (length h))
                (h @ [Guess None new_name, Question None q (length h) g]) = Inr h3"
  shows "lookup (set_parent g (Some (Suc (length h))) (set_parent (length h) (Some (Suc (length h))) h3))
           (Suc (length h)) = Some (Question None q (length h) g)"
    and "lookup (set_parent g (Some (Suc (length h))) (set_parent (length h) (Some (Suc (length h))) h3))
           (length h) = Some (Guess (Some (Suc (length h))) new_name)"
    and "lookup (set_parent g (Some (Suc (length h))) (set_parent (length h) (Some (Suc (length h))) h3))
           g = Some (Guess (Some (Suc (length h))) old_name)"
proof -
  let ?h2 = "h @ [Guess None new_name, Question None q (length h) g]"
  let ?ng = "length h" and ?nq = "Suc (length h)"
  have gl: "g < length h"
    using g by (rule lookup_Some_less)
  have g2: "lookup ?h2 g = Some (Guess par old_name)"
    using g gl by (simp add: lookup_append_old)
  have h3: "lookup h3 ?nq = Some (Question None q ?ng g) \<and>
            lookup h3 ?ng = Some (Guess None new_name) \<and>
            lookup h3 g = Some (Guess par old_name)"
  proof -
    from replace_in_parent_shape [OF rep]
    consider "h3 = ?h2"
      | p pp t pos neg x where "par = Some p" "lookup ?h2 p = Some (Question pp t pos neg)"
          "h3 = ?h2[p := x]"
      using g2 by auto
    then show ?thesis
    proof cases
      case 1
      with g2 show ?thesis
        by (simp add: lookup_def nth_append)
    next
      case 2
      with par have pl: "p < length h"
        by (simp add: in_store_def)
      have "p \<noteq> g"
        using 2(2) g2 by auto
      with pl 2(3) g2 show ?thesis
        by (simp add: lookup_update_other) (simp add: lookup_def nth_append)
    qed
  qed
  let ?h4 = "set_parent ?ng (Some ?nq) h3"
  have h4: "lookup ?h4 ?nq = Some (Question None q ?ng g)"
    "lookup ?h4 ?ng = Some (Guess (Some ?nq) new_name)"
    "lookup ?h4 g = Some (Guess par old_name)"
    using h3 gl by (simp_all add: lookup_set_parent_other lookup_set_parent_Guess)
  from h4 gl
  show "lookup (set_parent g (Some ?nq) ?h4) ?nq = Some (Question None q ?ng g)"
    and "lookup (set_parent g (Some ?nq) ?h4) ?ng = Some (Guess (Some ?nq) new_name)"
    and "lookup (set_parent g (Some ?nq) ?h4) g = Some (Guess (Some ?nq) old_name)"
    by (simp_all add: lookup_set_parent_other lookup_set_parent_Guess)
qed

lemma do_guess_yes:
  "lookup (heap w) g = Some (Guess par name) \<Longrightarrow>
   get_yes_or_no (''Is your animal a '' @ name @ ''?'') w = Inr (True, w1) \<Longrightarrow>
   do_guess g w = Inr (print (colored ''Yay! I guessed right!'' ''green'') (print [] w1))"
  by (simp add: do_guess_def)

lemma do_guess_no:
  "lookup (heap w) g = Some (Guess par name) \<Longrightarrow>
   get_yes_or_no (''Is your animal a '' @ name @ ''?'') w = Inr (False, w1) \<Longrightarrow>
   do_guess g w =
     (case add_new_question g w1 of
        Inl e \<Rightarrow> Inl e
      | Inr ((new_question, new_guess), w2) \<Rightarrow>
          Inr (save_data (if par = None then w2\<lparr>root_node := new_question\<rparr> else w2)))"
  by (simp add: do_guess_def)

lemma add_new_question_grows:
  assumes "add_new_question g w = Inr ((nq, ng), w')"
  shows "length (heap w') = length (heap w) + 2 \<and> root_node w' = root_node w \<and>
         zoo_dat w' = zoo_dat w"
proof -
  from add_new_question_unfold [OF assms] obtain new_name q w2 h3 where
    fr: "heap w2 = heap w" "root_node w2 = root_node w" "zoo_dat w2 = zoo_dat w"
    and ng: "ng = length (heap w)" and nq: "nq = Suc (length (heap w))"
    and rep: "replace_in_parent g nq (heap w @ [Guess None new_name, Question None q ng g]) = Inr h3"
    and w': "w' = w2\<lparr>heap := set_parent g (Some nq) (set_parent ng (Some nq) h3)\<rparr>"
    by auto
  from replace_in_parent_length [OF rep] fr w' show ?thesis
    by simp
qed

section \<open>Steps of a round\<close>

lemma get_yes_or_no_says:
  "stdin w = line # ls \<Longrightarrow> says line answer \<Longrightarrow>
     get_yes_or_no q w = Inr (answer, w\<lparr>stdin := ls, stdout := stdout w @ [q @ '' '']\<rparr>)"
  by (cases answer) (simp_all add: says_def get_yes_or_no_yes get_yes_or_no_no)

lemma play_Guess:
  "lookup (heap w) node = Some (Guess p n) \<Longrightarrow> 2 \<le> d \<Longrightarrow>
   play (Suc d) node w = do_guess node w"
  by simp

lemma play_Question:
  "lookup (heap w) node = Some (Question p text pos neg) \<Longrightarrow>
   get_yes_or_no (text @ ''?'') w = Inr (answer, w1) \<Longrightarrow> 2 \<le> d \<Longrightarrow>
   play (Suc d) node w = play d (if answer then pos else neg) w1"
  by (simp add: do_question_def)

lemma play_no_frames:
  "lookup (heap w) node = Some n \<Longrightarrow> d \<le> 2 \<Longrightarrow> play d node w = Inl RecursionError"
  by (cases d; cases n) simp_all

text \<open>
  A whole round, whatever path it takes, either leaves the tree and the file as they were or
  adds two nodes and writes the file once.
\<close>

lemma do_guess_effect:
  assumes "do_guess g w = Inr w'"
  shows "(heap w' = heap w \<and> root_node w' = root_node w \<and> zoo_dat w' = zoo_dat w) \<or>
         (length (heap w') = length (heap w) + 2 \<and>
          zoo_dat w' = zoo_dat w @ [(heap w', root_node w')])"
proof -
  from assms obtain par name where g: "lookup (heap w) g = Some (Guess par name)"
    by (auto simp: do_guess_def split: option.splits node.splits)
  from assms g obtain answer w1 where
    yn: "get_yes_or_no (''Is your animal a '' @ name @ ''?'') w = Inr (answer, w1)"
    by (auto simp: do_guess_def split: sum.splits)
  note fr = get_yes_or_no_frame [OF yn]
  show ?thesis
  proof (cases answer)
    case True
    with assms g yn have "w' = print (colored ''Yay! I guessed right!'' ''green'') (print [] w1)"
      by (simp add: do_guess_yes)
    with fr show ?thesis
      by (simp add: print_def)
  next
    case False
    with assms g yn obtain nq ng w2 where
      teach: "add_new_question g w1 = Inr ((nq, ng), w2)"
      and w': "w' = save_data (if par = None then w2\<lparr>root_node := nq\<rparr> else w2)"
      by (auto simp: do_guess_no split: sum.splits)
    from add_new_question_grows [OF teach] fr w' show ?thesis
      by (auto simp: save_data_def)
  qed
qed

lemma do_question_frame:
  "do_question q w = Inr (n, w') \<Longrightarrow>
     heap w' = heap w \<and> root_node w' = root_node w \<and> zoo_dat w' = zoo_dat w"
  by (auto simp: do_question_def dest: get_yes_or_no_frame
           split: option.splits node.splits sum.splits)

lemma play_saves_iff_grown:
  "play d node w = Inr w' \<Longrightarrow>
     (heap w' = heap w \<and> root_node w' = root_node w \<and> zoo_dat w' = zoo_dat w) \<or>
     (length (heap w') = length (heap w) + 2 \<and>
      zoo_dat w' = zoo_dat w @ [(heap w', root_node w')])"
proof (induction d arbitrary: node w)
  case 0
  then show ?case
    by simp
next
  case (Suc d)
  show ?case
  proof (cases "lookup (heap w) node")
    case None
    with Suc.prems show ?thesis
      by (auto simp: print_def)
  next
    case (Some n)
    show ?thesis
    proof (cases n)
      case (Guess p a)
      with Some Suc.prems have "do_guess node w = Inr w'"
        by (simp split: if_splits)
      then show ?thesis
        by (rule do_guess_effect)
    next
      case (Question p t pos neg)
      with Some Suc.prems obtain nxt w1 where
        q: "do_question node w = Inr (nxt, w1)" and rec: "play d nxt w1 = Inr w'"
        by (auto split: if_splits sum.splits)
      from Suc.IH [OF rec] do_question_frame [OF q]
      show ?thesis
        by simp
    qed
  qed
qed

section \<open>When the stack runs out\<close>

lemma path_nonempty: "path h node answers = Some nodes \<Longrightarrow> nodes \<noteq> []"
  by (cases answers) (auto split: option.splits node.splits)

lemma play_stack_exhausted:
  assumes "path (heap w) node answers = Some nodes"
    and "stdin w = lines @ rest"
    and "list_all2 says lines answers"
    and "d \<le> length answers + 2"
  shows "play d node w = Inl RecursionError"
  using assms
proof (induction answers arbitrary: w node nodes lines d)
  case Nil
  then obtain n where "lookup (heap w) node = Some n"
    by (auto split: option.splits)
  with Nil.prems(4) show ?case
    by (simp add: play_no_frames)
next
  case (Cons answer answers)
  from Cons.prems(1) obtain p t pos neg ns where
    q: "lookup (heap w) node = Some (Question p t pos neg)"
    and ns: "path (heap w) (if answer then pos else neg) answers = Some ns"
    by (auto split: option.splits node.splits)
  from Cons.prems(3) obtain line ls where
    lines: "lines = line # ls" and line: "says line answer" and ls: "list_all2 says ls answers"
    by (auto simp: list_all2_Cons2)
  let ?w1 = "w\<lparr>stdin := ls @ rest, stdout := stdout w @ [(t @ ''?'') @ '' '']\<rparr>"
  have ask: "get_yes_or_no (t @ ''?'') w = Inr (answer, ?w1)"
    using Cons.prems(2) lines line by (simp add: get_yes_or_no_says)
  show ?case
  proof (cases "d \<le> 2")
    case True
    with q show ?thesis
      by (simp add: play_no_frames)
  next
    case False
    then obtain k where d: "d = Suc k" and k: "2 \<le> k"
      by (cases d) auto
    have "play d node w = play k (if answer then pos else neg) ?w1"
      unfolding d using q ask k by (rule play_Question)
    also have "\<dots> = Inl RecursionError"
      using ns ls Cons.prems(4) d by (intro Cons.IH [where lines = ls]) simp_all
    finally show ?thesis .
  qed
qed

section \<open>Evaluating the string functions\<close>

lemmas str_simps =
  strip_def isspace_def lower_def capitalize_def lower_char_def upper_char_def
  ascii_uppercase_def ascii_lowercase_def startswith_def

lemma lower_char_idem: "lower_char (lower_char c) = lower_char c"
  by (simp add: lower_char_def ascii_uppercase_def ascii_lowercase_def)

lemma lower_char_not_upper: "lower_char c \<notin> set ascii_uppercase"
  by (simp add: lower_char_def ascii_uppercase_def ascii_lowercase_def)

lemma capitalize_lower:
  "capitalize (lower s) = (case map lower_char s of [] \<Rightarrow> [] | c # cs \<Rightarrow> upper_char c # cs)"
  by (cases s) (simp_all add: capitalize_def lower_def lower_char_idem)

section \<open>The code's string functions and the specification's\<close>

lemma inj_of_char_nat: "inj (of_char :: char \<Rightarrow> nat)"
  by (simp add: inj_def)

lemma capital_iff: "capital c \<longleftrightarrow> c \<in> set ascii_uppercase"
proof -
  have "c \<in> set ascii_uppercase \<longleftrightarrow> (of_char c :: nat) \<in> of_char ` set ascii_uppercase"
    by (simp only: inj_image_mem_iff [OF inj_of_char_nat])
  also have "\<dots> \<longleftrightarrow> capital c"
    unfolding capital_def Let_def ascii_uppercase_def by simp arith
  finally show ?thesis
    by simp
qed

lemma small_iff: "small c \<longleftrightarrow> c \<in> set ascii_lowercase"
proof -
  have "c \<in> set ascii_lowercase \<longleftrightarrow> (of_char c :: nat) \<in> of_char ` set ascii_lowercase"
    by (simp only: inj_image_mem_iff [OF inj_of_char_nat])
  also have "\<dots> \<longleftrightarrow> small c"
    unfolding small_def Let_def ascii_lowercase_def by simp arith
  finally show ?thesis
    by simp
qed

lemma lower_char_code:
  "c \<in> set ascii_uppercase \<Longrightarrow> (of_char (lower_char c) :: nat) = of_char c + 32"
  by (auto simp: lower_char_def ascii_uppercase_def ascii_lowercase_def)

lemma upper_char_code:
  "c \<in> set ascii_lowercase \<Longrightarrow> (of_char (upper_char c) :: nat) = of_char c - 32"
  by (auto simp: upper_char_def ascii_uppercase_def ascii_lowercase_def)

lemma lower_char_to_lower: "lower_char c = to_lower c"
proof (cases "capital c")
  case True
  then have "(of_char (lower_char c) :: nat) = of_char c + 32"
    by (simp add: capital_iff lower_char_code)
  then have "char_of (of_char (lower_char c) :: nat) = char_of ((of_char c :: nat) + 32)"
    by (rule arg_cong)
  with True show ?thesis
    by (simp add: to_lower_def)
next
  case False
  then have "map_of (zip ascii_uppercase ascii_lowercase) c = None"
    by (simp add: capital_iff map_of_zip_is_None ascii_uppercase_def ascii_lowercase_def)
  with False show ?thesis
    by (simp add: lower_char_def to_lower_def)
qed

lemma upper_char_to_upper: "upper_char c = to_upper c"
proof (cases "small c")
  case True
  then have "(of_char (upper_char c) :: nat) = of_char c - 32"
    by (simp add: small_iff upper_char_code)
  then have "char_of (of_char (upper_char c) :: nat) = char_of ((of_char c :: nat) - 32)"
    by (rule arg_cong)
  with True show ?thesis
    by (simp add: to_upper_def)
next
  case False
  then have "map_of (zip ascii_lowercase ascii_uppercase) c = None"
    by (simp add: small_iff map_of_zip_is_None ascii_uppercase_def ascii_lowercase_def)
  with False show ?thesis
    by (simp add: upper_char_def to_upper_def)
qed

lemma to_lower_not_capital: "\<not> capital (to_lower c)"
  by (auto simp: to_lower_def capital_def Let_def)

lemma isspace_white_space: "isspace c = white_space c"
proof -
  have "isspace c \<longleftrightarrow>
          (of_char c :: nat) \<in> of_char ` set [CHR 0x09, CHR 0x0A, CHR 0x0B, CHR 0x0C, CHR 0x0D,
                                               CHR 0x1C, CHR 0x1D, CHR 0x1E, CHR 0x1F, CHR 0x20]"
    unfolding isspace_def by (simp only: inj_image_mem_iff [OF inj_of_char_nat])
  also have "\<dots> \<longleftrightarrow> white_space c"
    unfolding white_space_def Let_def by simp arith
  finally show ?thesis .
qed

lemma rev_split: "xs = rev (dropWhile P (rev xs)) @ rev (takeWhile P (rev xs))"
proof -
  have "rev (dropWhile P (rev xs)) @ rev (takeWhile P (rev xs)) =
          rev (takeWhile P (rev xs) @ dropWhile P (rev xs))"
    by (simp only: rev_append)
  also have "\<dots> = rev (rev xs)"
    by (simp only: takeWhile_dropWhile_id)
  finally show ?thesis
    by simp
qed

lemma strip_split:
  "\<exists>pre post. s = pre @ strip s @ post \<and> list_all white_space pre \<and> list_all white_space post"
proof -
  let ?u = "dropWhile isspace s"
  have "s = takeWhile isspace s @ ?u"
    by simp
  moreover have "?u = strip s @ rev (takeWhile isspace (rev ?u))"
    unfolding strip_def by (rule rev_split)
  moreover have "list_all white_space (takeWhile isspace s)"
    unfolding list_all_iff isspace_white_space [symmetric] by (auto dest: set_takeWhileD)
  moreover have "list_all white_space (rev (takeWhile isspace (rev ?u)))"
    unfolding list_all_iff isspace_white_space [symmetric] by (auto dest: set_takeWhileD)
  ultimately show ?thesis
    by metis
qed

lemma strip_ends:
  assumes "strip s \<noteq> []"
  shows "\<not> white_space (hd (strip s)) \<and> \<not> white_space (last (strip s))"
proof -
  let ?u = "dropWhile isspace s"
  let ?v = "dropWhile isspace (rev ?u)"
  have s: "strip s = rev ?v"
    by (simp add: strip_def)
  with assms have v: "?v \<noteq> []"
    by simp
  then have "\<not> isspace (hd ?v)"
    by (rule hd_dropWhile)
  then have l: "\<not> white_space (last (strip s))"
    using v by (simp add: s last_rev isspace_white_space)
  have u: "?u \<noteq> []"
  proof
    assume "?u = []"
    then have "?v = []"
      by (simp only: rev.simps dropWhile.simps)
    with v show False
      by contradiction
  qed
  then have hu: "\<not> isspace (hd ?u)"
    by (rule hd_dropWhile)
  have "?u = strip s @ rev (takeWhile isspace (rev ?u))"
    unfolding strip_def by (rule rev_split)
  then have "hd ?u = hd (strip s)"
    using assms by (metis hd_append2)
  with hu l show ?thesis
    by (simp add: isspace_white_space)
qed

lemma strip_Nil_iff: "strip s = [] \<longleftrightarrow> list_all white_space s"
proof
  assume "strip s = []"
  with strip_split [of s] show "list_all white_space s"
    by auto
next
  assume "list_all white_space s"
  then have "\<forall>c \<in> set s. isspace c"
    unfolding list_all_iff isspace_white_space .
  then have "dropWhile isspace s = []"
    using dropWhile_eq_Nil_conv by blast
  then show "strip s = []"
    unfolding strip_def by (simp only: rev.simps dropWhile.simps)
qed

lemma normalised_stored_text:
  assumes "t \<noteq> []"
  shows "normalised t = stored_text t"
proof -
  have l: "lower_char = to_lower" and u: "upper_char = to_upper"
    by (rule ext, rule lower_char_to_lower) (rule ext, rule upper_char_to_upper)
  have "capitalize (lower t) = (case map to_lower t of [] \<Rightarrow> [] | c # cs \<Rightarrow> to_upper c # cs)"
    by (simp add: capitalize_lower l u split: list.splits)
  moreover have "(case map to_lower t of [] \<Rightarrow> [] | c # cs \<Rightarrow> to_upper c # cs) \<noteq> []"
    using assms by (cases t) simp_all
  ultimately show ?thesis
    by (simp add: normalised_def stored_text_def Let_def)
qed

lemma stored_text_tail:
  "list_all (\<lambda>c. \<not> capital c) (tl (stored_text t))"
proof -
  let ?cap = "case map to_lower t of [] \<Rightarrow> [] | c # cs \<Rightarrow> to_upper c # cs"
  have "set (tl (stored_text t)) \<subseteq> set (tl ?cap)"
    by (auto simp: stored_text_def Let_def butlast_tl [symmetric] dest: in_set_butlastD)
  also have "\<dots> \<subseteq> to_lower ` set (tl t)"
    by (cases t) auto
  finally show ?thesis
    unfolding list_all_iff using to_lower_not_capital by auto
qed

section \<open>The prompts follow the dialogue\<close>

lemma get_yes_or_no_first_answer:
  "(first_answer (stdin w) = None \<longrightarrow> get_yes_or_no q w = Inl EOFError) \<and>
   (\<forall>b rest. first_answer (stdin w) = Some (b, rest) \<longrightarrow>
      (\<exists>out. get_yes_or_no q w = Inr (b, w\<lparr>stdin := rest, stdout := out\<rparr>)))"
proof (induction "stdin w" arbitrary: w)
  case Nil
  then show ?case
    by (simp add: get_yes_or_no_eof)
next
  case (Cons l ls)
  have st: "stdin w = l # ls"
    using Cons.hyps(2) by simp
  consider (yes) "says l True" | (no) "\<not> says l True" "says l False"
    | (retry) "\<not> says l True" "\<not> says l False"
    by blast
  then show ?case
  proof cases
    case yes
    then show ?thesis
      using st by (auto simp: get_yes_or_no_says)
  next
    case no
    then show ?thesis
      using st by (auto simp: get_yes_or_no_says)
  next
    case retry
    let ?w2 = "w\<lparr>stdin := ls, stdout := stdout w @ [q @ '' '', please_answer @ nl]\<rparr>"
    from retry have r: "get_yes_or_no q w = get_yes_or_no q ?w2"
      using st by (intro get_yes_or_no_retry) (auto simp: says_def)
    have ls: "ls = stdin ?w2"
      by simp
    from Cons.hyps(1) [OF ls] retry st show ?thesis
      by (auto simp: r)
  qed
qed

lemma get_yes_or_no_no_answer:
  "first_answer (stdin w) = None \<Longrightarrow> get_yes_or_no q w = Inl EOFError"
  using get_yes_or_no_first_answer [of w q] by blast

lemma get_yes_or_no_answer:
  "first_answer (stdin w) = Some (b, rest) \<Longrightarrow>
     \<exists>out. get_yes_or_no q w = Inr (b, w\<lparr>stdin := rest, stdout := out\<rparr>)"
  using get_yes_or_no_first_answer [of w q] by blast

lemma get_question_loop_confirmed:
  "(confirmed_line (stdin w) = None \<longrightarrow> get_question_loop old new w = Inl EOFError) \<and>
   (\<forall>line rest. confirmed_line (stdin w) = Some (line, rest) \<longrightarrow>
      (\<exists>out. get_question_loop old new w =
               Inr (normalised (strip line), w\<lparr>stdin := rest, stdout := out\<rparr>)))"
proof (induction "length (stdin w)" arbitrary: w rule: less_induct)
  case less
  show ?case
  proof (cases "stdin w")
    case Nil
    then show ?thesis
      by (simp add: get_question_loop_eof)
  next
    case (Cons l ls)
    show ?thesis
    proof (cases "strip l = []")
      case True
      let ?w1 = "w\<lparr>stdout := stdout w @ [what_statement old new], stdin := ls\<rparr>"
      have blank: "list_all white_space l"
        using True by (simp add: strip_Nil_iff)
      have r: "get_question_loop old new w = get_question_loop old new ?w1"
        using Cons True by (rule get_question_loop_blank)
      have "length (stdin ?w1) < length (stdin w)"
        using Cons by simp
      from less.hyps [OF this] blank Cons show ?thesis
        by (auto simp: r)
    next
      case False
      let ?w2 = "w\<lparr>stdout := stdout w @ [what_statement old new], stdin := ls,
                    stdout := stdout w @ [what_statement old new, nl,
                                so_if_i_asked (normalised (strip l)) old new @ nl]\<rparr>"
      have nonblank: "\<not> list_all white_space l"
        using False by (simp add: strip_Nil_iff)
      have r: "get_question_loop old new w =
                 (case get_yes_or_no ''Is that right?'' ?w2 of
                    Inl e \<Rightarrow> Inl e
                  | Inr (ok, w3) \<Rightarrow>
                      if ok then Inr (normalised (strip l), w3) else get_question_loop old new w3)"
        using Cons False by (rule get_question_loop_line)
      have st2: "stdin ?w2 = ls"
        by simp
      show ?thesis
      proof (cases "first_answer ls")
        case None
        with get_yes_or_no_no_answer [of ?w2 "''Is that right?''"] nonblank Cons show ?thesis
          by (simp add: r)
      next
        case (Some a)
        obtain b rest where a: "a = (b, rest)"
          by (cases a)
        from get_yes_or_no_answer [of ?w2 b rest "''Is that right?''"] Some a obtain out where
          yn: "get_yes_or_no ''Is that right?'' ?w2 = Inr (b, ?w2\<lparr>stdin := rest, stdout := out\<rparr>)"
          by auto
        show ?thesis
        proof (cases b)
          case True
          with yn nonblank Cons Some a show ?thesis
            by (auto simp: r)
        next
          case no: False
          let ?w3 = "?w2\<lparr>stdin := rest, stdout := out\<rparr>"
          have "length (stdin ?w3) < length (stdin w)"
            using first_answer_shorter [of ls b rest] Some a Cons by simp
          from less.hyps [OF this] no yn nonblank Cons Some a show ?thesis
            by (auto simp: r)
        qed
      qed
    qed
  qed
qed

lemma confirmed_line_not_blank:
  "confirmed_line ls = Some (line, rest) \<Longrightarrow> \<not> list_all white_space line"
  by (induction ls rule: confirmed_line.induct) (auto split: if_splits option.splits)

section \<open>Accepted answers are ASCII\<close>

text \<open>
  The string functions of the model are exact on ASCII. A line that the yes/no prompt accepts
  as an answer is ASCII, so what is proved about accepted answers does not depend on
  characters beyond ASCII.
\<close>

lemma startswith_set: "startswith s p \<Longrightarrow> set p \<subseteq> set s"
  unfolding startswith_def by (metis set_take_subset)

lemma to_lower_ascii: "(of_char (to_lower c) :: nat) < 128 \<Longrightarrow> (of_char c :: nat) < 128"
  by (auto simp: to_lower_def capital_def Let_def split: if_splits)

lemma white_space_ascii: "white_space c \<Longrightarrow> (of_char c :: nat) < 128"
  by (auto simp: white_space_def Let_def)

lemma says_ascii:
  assumes "says line answer"
  shows "ascii line"
proof -
  from assms have "set (lower (strip line)) \<subseteq> set ''yes'' \<union> set ''no''"
    by (auto simp: says_def dest!: startswith_set split: if_splits)
  moreover have "\<forall>c \<in> set ''yes'' \<union> set ''no''. (of_char c :: nat) < 128"
    by simp
  ultimately have "\<forall>c \<in> set (strip line). (of_char (to_lower c) :: nat) < 128"
    by (auto simp: lower_def lower_char_to_lower)
  then have mid: "\<forall>c \<in> set (strip line). (of_char c :: nat) < 128"
    by (blast dest: to_lower_ascii)
  from strip_split [of line] obtain pre post where
    "line = pre @ strip line @ post" "list_all white_space pre" "list_all white_space post"
    by blast
  with mid show ?thesis
    unfolding ascii_def list_all_iff
    by (metis Un_iff set_append white_space_ascii)
qed

section \<open>The row of questions\<close>

lemma length_chain_blocks: "length (chain_blocks n) = 2 * n"
  by (induction n) (simp_all add: chain_block_def)

lemma chain_blocks_nth:
  "i < n \<Longrightarrow>
     chain_blocks n ! (2 * i) =
       Question (if i = 0 then None else Some (2 * (i - 1))) ''Is it big''
         (Suc (Suc (2 * i))) (Suc (2 * i)) \<and>
     chain_blocks n ! Suc (2 * i) = Guess (Some (2 * i)) ''dog''"
proof (induction n)
  case 0
  then show ?case by simp
next
  case (Suc n)
  show ?case
  proof (cases "i < n")
    case True
    with Suc.IH show ?thesis
      by (simp add: nth_append length_chain_blocks)
  next
    case False
    with Suc.prems have i: "i = n" by simp
    have "(chain_blocks n @ chain_block n) ! (length (chain_blocks n) + 0) = chain_block n ! 0"
      "(chain_blocks n @ chain_block n) ! (length (chain_blocks n) + 1) = chain_block n ! 1"
      by (rule nth_append_length_plus)+
    then show ?thesis
      by (simp add: i length_chain_blocks chain_block_def)
  qed
qed

lemma length_chain [simp]: "length (chain n) = 2 * n + 1"
  by (simp add: chain_def length_chain_blocks)

lemma lookup_chain_question:
  "i < n \<Longrightarrow>
     lookup (chain n) (2 * i) =
       Some (Question (if i = 0 then None else Some (2 * (i - 1))) ''Is it big''
              (Suc (Suc (2 * i))) (Suc (2 * i)))"
  using chain_blocks_nth [of i n]
  by (simp add: lookup_def chain_def nth_append length_chain_blocks)

lemma lookup_chain_side:
  "i < n \<Longrightarrow> lookup (chain n) (Suc (2 * i)) = Some (Guess (Some (2 * i)) ''dog'')"
  using chain_blocks_nth [of i n]
  by (simp add: lookup_def chain_def nth_append length_chain_blocks)

lemma lookup_chain_end:
  "lookup (chain n) (2 * n) = Some (Guess (if n = 0 then None else Some (2 * (n - 1))) ''cat'')"
  by (simp add: lookup_def chain_def nth_append length_chain_blocks)

lemma chain_path_from:
  "i \<le> n \<Longrightarrow> path (chain n) (2 * i) (replicate (n - i) True) = Some (map ((*) 2) [i..<Suc n])"
proof (induction "n - i" arbitrary: i)
  case 0
  then have "i = n" by simp
  then show ?case
    by (simp add: lookup_chain_end)
next
  case (Suc k)
  then have i: "i < n" and k: "k = n - Suc i" and r: "n - i = Suc (n - Suc i)"
    by simp_all
  have rec: "path (chain n) (2 * Suc i) (replicate (n - Suc i) True) =
               Some (map ((*) 2) [Suc i..<Suc n])"
    using i k by (intro Suc.hyps(1)) simp_all
  have u: "[i..<Suc n] = i # [Suc i..<Suc n]"
    using i by (simp add: upt_conv_Cons)
  have "path (chain n) (2 * i) (replicate (n - i) True) =
          path (chain n) (2 * i) (True # replicate (n - Suc i) True)"
    by (simp only: r replicate_Suc)
  also have "\<dots> = map_option ((#) (2 * i))
                      (path (chain n) (2 * Suc i) (replicate (n - Suc i) True))"
    using i by (simp add: lookup_chain_question)
  also have "\<dots> = Some (map ((*) 2) [i..<Suc n])"
    by (simp only: rec u) simp
  finally show ?case .
qed

lemma chain_path: "path (chain n) 0 (replicate n True) = Some (map ((*) 2) [0..<Suc n])"
  using chain_path_from [of 0 n] by simp

lemma says_yes: "says ''yes'' True"
  by (simp add: says_def str_simps)

lemma main_deep_chain:
  assumes "recursion_limit - 1 \<le> n + 2"
  shows "main (start (replicate n ''yes'') [] 0\<lparr>zoo_dat := [(chain n, 0)]\<rparr>) = Inl RecursionError"
proof -
  let ?w = "print ''Think of an animal, and I'll try and guess what it is.''
              (print ''------------------------------------------------------''
                (print [] (start (replicate n ''yes'') [] 0
                             \<lparr>zoo_dat := [(chain n, 0)], heap := chain n, root_node := 0\<rparr>)))"
  have m: "main (start (replicate n ''yes'') [] 0\<lparr>zoo_dat := [(chain n, 0)]\<rparr>) =
             play (recursion_limit - 1) 0 ?w"
    by (simp add: main_def load_data_def)
  have p: "path (heap ?w) 0 (replicate n True) = Some (map ((*) 2) [0..<Suc n])"
    using chain_path [of n] by (simp add: print_def del: upt_Suc)
  have i: "stdin ?w = replicate n ''yes'' @ []"
    by (simp add: print_def start_def)
  have a: "list_all2 says (replicate n ''yes'') (replicate n True)"
    by (simp add: list_all2_conv_all_nth says_yes)
  have d: "recursion_limit - 1 \<le> length (replicate n True) + 2"
    using assms by simp
  show ?thesis
    unfolding m using p i a d by (rule play_stack_exhausted)
qed

lemma chain_parent_links: "parent_links (chain n) a"
proof (cases "a < 2 * n \<and> even a")
  case True
  then obtain i where a: "a = 2 * i" and i: "i < n"
    by (auto elim: evenE)
  have pos: "map_option parent_of (lookup (chain n) (Suc (Suc (2 * i)))) = Some (Some (2 * i))"
  proof (cases "Suc i < n")
    case True
    then show ?thesis
      using lookup_chain_question [of "Suc i" n] by simp
  next
    case False
    with i have "n = Suc i" by simp
    then show ?thesis
      using lookup_chain_end [of n] by simp
  qed
  have neg: "map_option parent_of (lookup (chain n) (Suc (2 * i))) = Some (Some (2 * i))"
    using i by (simp add: lookup_chain_side)
  show ?thesis
    unfolding a parent_links_def using i pos neg by (simp add: lookup_chain_question)
next
  case False
  show ?thesis
  proof (cases "a < 2 * n")
    case True
    with False obtain i where a: "a = Suc (2 * i)" and i: "i < n"
      by (auto elim: oddE)
    then show ?thesis
      by (simp add: parent_links_def lookup_chain_side)
  next
    case False
    show ?thesis
    proof (cases "a = 2 * n")
      case True
      then show ?thesis
        by (simp add: parent_links_def lookup_chain_end)
    next
      case False
      with \<open>\<not> a < 2 * n\<close> show ?thesis
        by (simp add: parent_links_def lookup_def)
    qed
  qed
qed

section \<open>The yes/no prompt on an empty line\<close>

text \<open>
  Claim C3: the yes/no prompt returns true exactly on a non-empty prefix of "yes", false exactly
  on a non-empty prefix of "no", and asks again on any other line, an empty line included.
  The code tests \<^verbatim>\<open>'yes'.startswith(answer)\<close>, which holds for the empty string: on an
  empty line the prompt returns true at once, having printed the question a single time and no
  error message.
\<close>

theorem get_yes_or_no_empty_line:
  "get_yes_or_no q (w\<lparr>stdin := [] # ls\<rparr>) =
     Inr (True, w\<lparr>stdin := ls, stdout := stdout w @ [q @ '' '']\<rparr>)"
  by (subst get_yes_or_no_yes [of _ "[]" ls]) (simp_all add: strip_def lower_def startswith_def)

section \<open>The distinguishing question and its question marks\<close>

text \<open>
  Claim C4: the question text kept for the new Question node is trimmed, non-empty and does not
  end with a question mark, whatever the user typed. The code tests for emptiness before it
  removes the question mark, and removes one question mark only: the line \<^verbatim>\<open>?\<close>, once
  confirmed, gives the empty text, and the line \<^verbatim>\<open>what??\<close> gives a text that still ends
  with a question mark.
\<close>

theorem get_question_question_marks:
  "map_sum id fst (get_question old new (w\<lparr>stdin := ''?'' # ''y'' # ls\<rparr>)) = Inr [] \<and>
   map_sum id fst (get_question old new (w\<lparr>stdin := ''what??'' # ''y'' # ls\<rparr>)) = Inr ''What?''"
proof
  show "map_sum id fst (get_question old new (w\<lparr>stdin := ''?'' # ''y'' # ls\<rparr>)) = Inr []"
    apply (simp add: get_question_def)
    apply (subst get_question_loop.simps)
    apply (simp add: input_def print_def print_end_def str_simps Let_def)
    apply (subst get_yes_or_no_yes [of _ "''y''" ls])
      apply (simp_all add: str_simps)
    done
  show "map_sum id fst (get_question old new (w\<lparr>stdin := ''what??'' # ''y'' # ls\<rparr>)) = Inr ''What?''"
    apply (simp add: get_question_def)
    apply (subst get_question_loop.simps)
    apply (simp add: input_def print_def print_end_def str_simps Let_def)
    apply (subst get_yes_or_no_yes [of _ "''y''" ls])
      apply (simp_all add: str_simps)
    done
qed

section \<open>The stored question text\<close>

text \<open>
  Claim C10: for every distinguishing-question input the user confirms, the question text stored
  in the new Question node is the trimmed input with every character lowercased and then only
  the first character capitalized, with at most one trailing question mark removed afterwards;
  in particular no capital letter is left after the first character. Here the input is ASCII,
  the confirmed line is the one the dialogue determines, and trimming is pinned by what it
  removes: white space before and after a text that neither starts nor ends with white space.
\<close>

theorem add_new_question_stored_text:
  assumes "lookup (heap w) g = Some (Guess par old_name)"
    and "in_store (heap w) par"
    and "list_all ascii (stdin w)"
    and "get_new_animal_name (giving_up old_name w) = Inr (new_name, w1)"
    and "add_new_question g w = Inr ((nq, ng), w')"
  shows "\<exists>line rest pre t post.
           confirmed_line (stdin w1) = Some (line, rest) \<and> stdin w' = rest \<and>
           line = pre @ t @ post \<and> list_all white_space pre \<and> list_all white_space post \<and>
           t \<noteq> [] \<and> \<not> white_space (hd t) \<and> \<not> white_space (last t) \<and>
           lookup (heap w') nq = Some (Question None (stored_text t) ng g) \<and>
           list_all (\<lambda>c. \<not> capital c) (tl (stored_text t))"
proof -
  from add_new_question_unfold [OF assms(5)] assms(1,4) obtain q w2 h3 where
    qu: "get_question old_name new_name w1 = Inr (q, w2)"
    and ng: "ng = length (heap w)" and nq: "nq = Suc (length (heap w))"
    and rep: "replace_in_parent g nq (heap w @ [Guess None new_name, Question None q ng g]) = Inr h3"
    and w': "w' = w2\<lparr>heap := set_parent g (Some nq) (set_parent ng (Some nq) h3)\<rparr>"
    by auto
  let ?w0 = "print (''I need to know how to tell the difference between '' @ dq @ new_name @ dq @
                    '' and '' @ dq @ old_name @ dq @ ''.'') (print [] w1)"
  have loop: "get_question_loop old_name new_name ?w0 = Inr (q, w2)"
    using qu unfolding get_question_def .
  have st0: "stdin ?w0 = stdin w1"
    by (simp add: print_def)
  from get_question_loop_confirmed [of ?w0 old_name new_name] loop st0
  obtain line rest out where
    conf: "confirmed_line (stdin w1) = Some (line, rest)"
    and res: "Inr (q, w2) = Inr (normalised (strip line), ?w0\<lparr>stdin := rest, stdout := out\<rparr>)"
    by (cases "confirmed_line (stdin w1)") auto
  from res have q: "q = normalised (strip line)" and w2: "stdin w2 = rest"
    by auto
  have ne: "strip line \<noteq> []"
    using confirmed_line_not_blank [OF conf] by (simp add: strip_Nil_iff)
  then have q': "q = stored_text (strip line)"
    using q by (simp add: normalised_stored_text)
  from strip_split [of line] obtain pre post where
    sp: "line = pre @ strip line @ post" "list_all white_space pre" "list_all white_space post"
    by blast
  from taught_store(1) [OF assms(1,2) rep [unfolded ng nq]] w' ng nq q'
  have node: "lookup (heap w') nq = Some (Question None (stored_text (strip line)) ng g)"
    by simp
  have "stdin w' = rest"
    using w' w2 by simp
  with conf sp ne strip_ends [OF ne] node stored_text_tail [of "strip line"] show ?thesis
    by blast
qed

theorem add_new_question_stored_text_witness:
  "lookup (heap (start [''Bird'', ''y'', '' '', '' does IT Bark? '', ''maybe'', ''y''] cat_dog_tree 2)) 0 = Some (Guess (Some 2) ''dog'') \<and>
   in_store (heap (start [''Bird'', ''y'', '' '', '' does IT Bark? '', ''maybe'', ''y''] cat_dog_tree 2)) (Some 2) \<and>
   list_all ascii (stdin (start [''Bird'', ''y'', '' '', '' does IT Bark? '', ''maybe'', ''y''] cat_dog_tree 2)) \<and>
   get_new_animal_name (giving_up ''dog'' (start [''Bird'', ''y'', '' '', '' does IT Bark? '', ''maybe'', ''y''] cat_dog_tree 2)) =
     Inr (''bird'', snd (projr (get_new_animal_name (giving_up ''dog'' (start [''Bird'', ''y'', '' '', '' does IT Bark? '', ''maybe'', ''y''] cat_dog_tree 2))))) \<and>
   add_new_question 0 (start [''Bird'', ''y'', '' '', '' does IT Bark? '', ''maybe'', ''y''] cat_dog_tree 2) = Inr ((4, 3), snd (projr (add_new_question 0 (start [''Bird'', ''y'', '' '', '' does IT Bark? '', ''maybe'', ''y''] cat_dog_tree 2)))) \<and>
   (\<exists>line rest pre t post.
      confirmed_line (stdin (snd (projr (get_new_animal_name (giving_up ''dog'' (start [''Bird'', ''y'', '' '', '' does IT Bark? '', ''maybe'', ''y''] cat_dog_tree 2)))))) =
        Some (line, rest) \<and>
      stdin (snd (projr (add_new_question 0 (start [''Bird'', ''y'', '' '', '' does IT Bark? '', ''maybe'', ''y''] cat_dog_tree 2)))) = rest \<and>
      line = pre @ t @ post \<and> list_all white_space pre \<and> list_all white_space post \<and>
      t \<noteq> [] \<and> \<not> white_space (hd t) \<and> \<not> white_space (last t) \<and>
      lookup (heap (snd (projr (add_new_question 0 (start [''Bird'', ''y'', '' '', '' does IT Bark? '', ''maybe'', ''y''] cat_dog_tree 2))))) 4 =
        Some (Question None (stored_text t) 3 0) \<and>
      list_all (\<lambda>c. \<not> capital c) (tl (stored_text t))) \<and>
   lookup (heap (snd (projr (add_new_question 0 (start [''Bird'', ''y'', '' '', '' does IT Bark? '', ''maybe'', ''y''] cat_dog_tree 2))))) 4 =
     Some (Question None ''Does it bark'' 3 0)"
proof -
  let ?w = "(start [''Bird'', ''y'', '' '', '' does IT Bark? '', ''maybe'', ''y''] cat_dog_tree 2)"
  have g: "lookup (heap ?w) 0 = Some (Guess (Some 2) ''dog'')"
    by code_simp
  have par: "in_store (heap ?w) (Some 2)"
    by code_simp
  have asc: "list_all ascii (stdin ?w)"
    by code_simp
  have name: "get_new_animal_name (giving_up ''dog'' ?w) =
                Inr (''bird'', snd (projr (get_new_animal_name (giving_up ''dog'' ?w))))"
    by code_simp
  have run: "add_new_question 0 ?w = Inr ((4, 3), snd (projr (add_new_question 0 ?w)))"
    by code_simp
  have node: "lookup (heap (snd (projr (add_new_question 0 ?w)))) 4 =
                Some (Question None ''Does it bark'' 3 0)"
    by code_simp
  from add_new_question_stored_text [OF g par asc name run] g par asc name run node
  show ?thesis
    by blast
qed

section \<open>The polarity of the new question\<close>

text \<open>
  Claim C6: for every teach at a wrong Guess node \<open>g\<close>, the newly constructed Question node has
  the new Guess node, which holds the animal the user named, as its positive child and the old
  node \<open>g\<close> as its negative child, whatever the user typed. The two nodes are new objects, and
  the new Guess points back to the new Question.
\<close>

theorem add_new_question_polarity:
  assumes "add_new_question g w = Inr ((nq, ng), w')"
    and "lookup (heap w) g = Some (Guess par old_name)"
    and "in_store (heap w) par"
  shows "\<exists>new_name q w1.
           get_new_animal_name (giving_up old_name w) = Inr (new_name, w1) \<and>
           lookup (heap w) ng = None \<and> lookup (heap w) nq = None \<and>
           lookup (heap w') ng = Some (Guess (Some nq) new_name) \<and>
           lookup (heap w') nq = Some (Question None q ng g)"
proof -
  from add_new_question_unfold [OF assms(1)] assms(2) obtain new_name w1 q w2 h3 where
    name: "get_new_animal_name (giving_up old_name w) = Inr (new_name, w1)"
    and ng: "ng = length (heap w)" and nq: "nq = Suc (length (heap w))"
    and rep: "replace_in_parent g nq (heap w @ [Guess None new_name, Question None q ng g]) = Inr h3"
    and w': "w' = w2\<lparr>heap := set_parent g (Some nq) (set_parent ng (Some nq) h3)\<rparr>"
    by auto
  from taught_store(1,2) [OF assms(2,3) rep [unfolded ng nq]] w' ng nq
  have "lookup (heap w') nq = Some (Question None q ng g)"
    "lookup (heap w') ng = Some (Guess (Some nq) new_name)"
    by simp_all
  moreover have "lookup (heap w) ng = None" "lookup (heap w) nq = None"
    using ng nq by (simp_all add: lookup_def)
  ultimately show ?thesis
    using name by blast
qed

theorem add_new_question_polarity_witness:
  "add_new_question 0 (start [''Bird'', ''y'', ''can it fly?'', ''y''] cat_dog_tree 2) =
     Inr ((4, 3), snd (projr (add_new_question 0
                                (start [''Bird'', ''y'', ''can it fly?'', ''y''] cat_dog_tree 2)))) \<and>
   lookup (heap (start [''Bird'', ''y'', ''can it fly?'', ''y''] cat_dog_tree 2)) 0 =
     Some (Guess (Some 2) ''dog'') \<and>
   in_store (heap (start [''Bird'', ''y'', ''can it fly?'', ''y''] cat_dog_tree 2)) (Some 2) \<and>
   (\<exists>new_name q w1.
      get_new_animal_name
        (giving_up ''dog'' (start [''Bird'', ''y'', ''can it fly?'', ''y''] cat_dog_tree 2)) =
        Inr (new_name, w1) \<and>
      lookup (heap (start [''Bird'', ''y'', ''can it fly?'', ''y''] cat_dog_tree 2)) 3 = None \<and>
      lookup (heap (start [''Bird'', ''y'', ''can it fly?'', ''y''] cat_dog_tree 2)) 4 = None \<and>
      lookup (heap (snd (projr (add_new_question 0
                (start [''Bird'', ''y'', ''can it fly?'', ''y''] cat_dog_tree 2))))) 3 =
        Some (Guess (Some 4) new_name) \<and>
      lookup (heap (snd (projr (add_new_question 0
                (start [''Bird'', ''y'', ''can it fly?'', ''y''] cat_dog_tree 2))))) 4 =
        Some (Question None q 3 0))"
proof -
  let ?w = "start [''Bird'', ''y'', ''can it fly?'', ''y''] cat_dog_tree 2"
  have run: "add_new_question 0 ?w = Inr ((4, 3), snd (projr (add_new_question 0 ?w)))"
    by code_simp
  have g: "lookup (heap ?w) 0 = Some (Guess (Some 2) ''dog'')"
    by code_simp
  have par: "in_store (heap ?w) (Some 2)"
    by code_simp
  from add_new_question_polarity [OF run g par] run g par show ?thesis
    by simp
qed

section \<open>Teaching at the root\<close>

text \<open>
  Claim C7: for every tree whose root is a Guess node with no parent, teaching at that node makes
  the new Question node the root of the tree, with the old root Guess as the negative child of
  the new root. The new root is a new object without a parent, and the old root points back
  to it.
\<close>

theorem do_guess_root_replacement:
  assumes "root_node w = g"
    and "lookup (heap w) g = Some (Guess None name)"
    and "get_yes_or_no (''Is your animal a '' @ name @ ''?'') w = Inr (False, w1)"
    and "do_guess g w = Inr w'"
  shows "\<exists>q new_guess.
           lookup (heap w) (root_node w') = None \<and>
           lookup (heap w') (root_node w') = Some (Question None q new_guess g) \<and>
           lookup (heap w') g = Some (Guess (Some (root_node w')) name)"
proof -
  from assms(2-4) obtain nq ng w2 where
    teach: "add_new_question g w1 = Inr ((nq, ng), w2)"
    and w': "w' = save_data (w2\<lparr>root_node := nq\<rparr>)"
    by (auto simp: do_guess_no split: sum.splits)
  have h1: "heap w1 = heap w"
    using get_yes_or_no_frame [OF assms(3)] by simp
  from add_new_question_unfold [OF teach] assms(2) h1 obtain new_name q w3 h3 where
    ng: "ng = length (heap w)" and nq: "nq = Suc (length (heap w))"
    and rep: "replace_in_parent g nq (heap w @ [Guess None new_name, Question None q ng g]) = Inr h3"
    and w2: "w2 = w3\<lparr>heap := set_parent g (Some nq) (set_parent ng (Some nq) h3)\<rparr>"
    by auto
  have "in_store (heap w) None"
    by (simp add: in_store_def)
  from taught_store(1,3) [OF assms(2) this rep [unfolded ng nq]] w2 ng nq w'
  have "lookup (heap w') (root_node w') = Some (Question None q ng g)"
    "lookup (heap w') g = Some (Guess (Some (root_node w')) name)"
    by (simp_all add: save_data_def)
  moreover have "lookup (heap w) (root_node w') = None"
    using nq w' by (simp add: save_data_def lookup_def)
  ultimately show ?thesis
    by blast
qed

theorem do_guess_root_replacement_witness:
  "root_node (start [''n'', ''Cat'', ''y'', ''Does it meow?'', ''yes''] [Guess None ''dog''] 0) = 0 \<and>
   lookup (heap (start [''n'', ''Cat'', ''y'', ''Does it meow?'', ''yes''] [Guess None ''dog''] 0)) 0 =
     Some (Guess None ''dog'') \<and>
   do_guess 0 (start [''n'', ''Cat'', ''y'', ''Does it meow?'', ''yes''] [Guess None ''dog''] 0) =
     Inr (projr (do_guess 0
            (start [''n'', ''Cat'', ''y'', ''Does it meow?'', ''yes''] [Guess None ''dog''] 0))) \<and>
   (\<exists>q new_guess.
      lookup [Guess None ''dog'']
        (root_node (projr (do_guess 0
            (start [''n'', ''Cat'', ''y'', ''Does it meow?'', ''yes''] [Guess None ''dog''] 0)))) = None \<and>
      lookup (heap (projr (do_guess 0
            (start [''n'', ''Cat'', ''y'', ''Does it meow?'', ''yes''] [Guess None ''dog''] 0))))
        (root_node (projr (do_guess 0
            (start [''n'', ''Cat'', ''y'', ''Does it meow?'', ''yes''] [Guess None ''dog''] 0)))) =
        Some (Question None q new_guess 0) \<and>
      lookup (heap (projr (do_guess 0
            (start [''n'', ''Cat'', ''y'', ''Does it meow?'', ''yes''] [Guess None ''dog''] 0)))) 0 =
        Some (Guess (Some (root_node (projr (do_guess 0
            (start [''n'', ''Cat'', ''y'', ''Does it meow?'', ''yes''] [Guess None ''dog''] 0))))) ''dog''))"
proof -
  let ?w = "start [''n'', ''Cat'', ''y'', ''Does it meow?'', ''yes''] [Guess None ''dog''] 0"
  have root: "root_node ?w = 0"
    by code_simp
  have g: "lookup (heap ?w) 0 = Some (Guess None ''dog'')"
    by code_simp
  have no: "get_yes_or_no (''Is your animal a '' @ ''dog'' @ ''?'') ?w =
              Inr (False, snd (projr (get_yes_or_no (''Is your animal a '' @ ''dog'' @ ''?'') ?w)))"
    by code_simp
  have run: "do_guess 0 ?w = Inr (projr (do_guess 0 ?w))"
    by code_simp
  have h: "heap ?w = [Guess None ''dog'']"
    by (simp add: start_def)
  from do_guess_root_replacement [OF root g no run] root g run show ?thesis
    unfolding h by simp
qed

section \<open>A save exactly when a teach\<close>

text \<open>
  Claim C8: in every round, if the user confirms the guess, the tree is unchanged and nothing is
  saved; if the user rejects it, the teach runs and exactly one save of the whole tree follows,
  so a round saves if and only if it teaches. The save writes the tree as the teach left it.
\<close>

theorem do_guess_saves_iff_taught:
  assumes "lookup (heap w) g = Some (Guess par name)"
    and "get_yes_or_no (''Is your animal a '' @ name @ ''?'') w = Inr (answer, w1)"
    and "do_guess g w = Inr w'"
  shows "(answer \<longrightarrow>
            heap w' = heap w \<and> root_node w' = root_node w \<and> zoo_dat w' = zoo_dat w) \<and>
         (\<not> answer \<longrightarrow>
            (\<exists>new_question new_guess w2.
               add_new_question g w1 = Inr ((new_question, new_guess), w2) \<and>
               heap w' = heap w2) \<and>
            length (heap w') = length (heap w) + 2 \<and>
            zoo_dat w' = zoo_dat w @ [(heap w', root_node w')])"
proof (cases answer)
  case True
  with assms have "w' = print (colored ''Yay! I guessed right!'' ''green'') (print [] w1)"
    by (simp add: do_guess_yes)
  with get_yes_or_no_frame [OF assms(2)] True show ?thesis
    by (simp add: print_def)
next
  case False
  with assms obtain nq ng w2 where
    teach: "add_new_question g w1 = Inr ((nq, ng), w2)"
    and w': "w' = save_data (if par = None then w2\<lparr>root_node := nq\<rparr> else w2)"
    by (auto simp: do_guess_no split: sum.splits)
  from add_new_question_grows [OF teach] get_yes_or_no_frame [OF assms(2)]
  have "length (heap w2) = length (heap w) + 2" "zoo_dat w2 = zoo_dat w"
    by simp_all
  with teach w' False show ?thesis
    by (auto simp: save_data_def)
qed

theorem do_guess_saves_iff_taught_witness:
  "lookup (heap (start [''n'', ''Cat'', ''y'', ''Does it meow?'', ''yes''] [Guess None ''dog''] 0)) 0 =
     Some (Guess None ''dog'') \<and>
   do_guess 0 (start [''n'', ''Cat'', ''y'', ''Does it meow?'', ''yes''] [Guess None ''dog''] 0) =
     Inr (projr (do_guess 0
            (start [''n'', ''Cat'', ''y'', ''Does it meow?'', ''yes''] [Guess None ''dog''] 0))) \<and>
   length (heap (projr (do_guess 0
            (start [''n'', ''Cat'', ''y'', ''Does it meow?'', ''yes''] [Guess None ''dog''] 0)))) = 3 \<and>
   zoo_dat (projr (do_guess 0
            (start [''n'', ''Cat'', ''y'', ''Does it meow?'', ''yes''] [Guess None ''dog''] 0))) =
     [(heap (projr (do_guess 0
            (start [''n'', ''Cat'', ''y'', ''Does it meow?'', ''yes''] [Guess None ''dog''] 0))),
       root_node (projr (do_guess 0
            (start [''n'', ''Cat'', ''y'', ''Does it meow?'', ''yes''] [Guess None ''dog''] 0))))] \<and>
   do_guess 0 (start [''yes''] [Guess None ''dog''] 0) =
     Inr (projr (do_guess 0 (start [''yes''] [Guess None ''dog''] 0))) \<and>
   heap (projr (do_guess 0 (start [''yes''] [Guess None ''dog''] 0))) = [Guess None ''dog''] \<and>
   root_node (projr (do_guess 0 (start [''yes''] [Guess None ''dog''] 0))) = 0 \<and>
   zoo_dat (projr (do_guess 0 (start [''yes''] [Guess None ''dog''] 0))) = []"
proof -
  let ?w = "start [''n'', ''Cat'', ''y'', ''Does it meow?'', ''yes''] [Guess None ''dog''] 0"
  let ?v = "start [''yes''] [Guess None ''dog''] 0"
  have g: "lookup (heap ?w) 0 = Some (Guess None ''dog'')"
    by code_simp
  have no: "get_yes_or_no (''Is your animal a '' @ ''dog'' @ ''?'') ?w =
              Inr (False, snd (projr (get_yes_or_no (''Is your animal a '' @ ''dog'' @ ''?'') ?w)))"
    by code_simp
  have run: "do_guess 0 ?w = Inr (projr (do_guess 0 ?w))"
    by code_simp
  have g': "lookup (heap ?v) 0 = Some (Guess None ''dog'')"
    by code_simp
  have yes: "get_yes_or_no (''Is your animal a '' @ ''dog'' @ ''?'') ?v =
              Inr (True, snd (projr (get_yes_or_no (''Is your animal a '' @ ''dog'' @ ''?'') ?v)))"
    by code_simp
  have run': "do_guess 0 ?v = Inr (projr (do_guess 0 ?v))"
    by code_simp
  have h: "heap ?w = [Guess None ''dog'']" "zoo_dat ?w = []" "heap ?v = [Guess None ''dog'']"
    "zoo_dat ?v = []" "root_node ?v = 0"
    by (simp_all add: start_def)
  from do_guess_saves_iff_taught [OF g no run] do_guess_saves_iff_taught [OF g' yes run']
    g run run' show ?thesis
    unfolding h by simp
qed

section \<open>Traversal\<close>

text \<open>
  Claim C5: for every tree that satisfies the invariants and every sequence of yes/no answers,
  play started at the root visits exactly the path that takes the positive child on each yes
  and the negative child on each no, and the question-asking phase ends at the Guess node at
  the end of that path. \<^verbatim>\<open>play\<close> is recursive, one call inside the other for each
  question, so the claim fails on a deep tree: for the row of a thousand questions, whose
  parent links all hold and whose path under a thousand yes answers ends at its last Guess,
  the script stops with \<^verbatim>\<open>RecursionError\<close> before it reaches that Guess.
\<close>

theorem play_deep_chain_fails:
  "list_all (parent_links (chain 1000)) [0..<length (chain 1000)] \<and>
   path (chain 1000) 0 (replicate 1000 True) = Some (map ((*) 2) [0..<Suc 1000]) \<and>
   main (start (replicate 1000 ''yes'') [] 0\<lparr>zoo_dat := [(chain 1000, 0)]\<rparr>) = Inl RecursionError"
proof (intro conjI)
  show "list_all (parent_links (chain 1000)) [0..<length (chain 1000)]"
    unfolding list_all_iff using chain_parent_links by blast
  show "path (chain 1000) 0 (replicate 1000 True) = Some (map ((*) 2) [0..<Suc 1000])"
    by (rule chain_path)
  have "recursion_limit - 1 \<le> 1000 + 2"
    by (simp add: recursion_limit_def)
  then show "main (start (replicate 1000 ''yes'') [] 0\<lparr>zoo_dat := [(chain 1000, 0)]\<rparr>) =
               Inl RecursionError"
    by (rule main_deep_chain)
qed

text \<open>
  Claim C5, amended: for every tree and every sequence of yes/no answers whose path leaves the
  stack three frames more than it has questions, play visits exactly that path and the
  question-asking phase ends at the Guess node at its end. With one accepted line per answer,
  play asks the questions of the nodes on the path, in order and nothing else, consumes those
  lines, and goes on as \<^verbatim>\<open>do_guess\<close> at the last node of the path. No invariant of the tree
  is needed. A line that the prompt accepts as an answer consists of ASCII characters.
\<close>

theorem play_follows_path:
  assumes "path (heap w) node answers = Some nodes"
    and "stdin w = lines @ rest"
    and "list_all2 says lines answers"
    and "length answers + 2 < d"
  shows "play d node w =
           do_guess (last nodes)
             (w\<lparr>stdin := rest, stdout := stdout w @ map (asked (heap w)) (butlast nodes)\<rparr>)"
  using assms
proof (induction answers arbitrary: w node nodes lines d)
  case Nil
  then obtain p n where g: "lookup (heap w) node = Some (Guess p n)" and "nodes = [node]"
    by (auto split: option.splits node.splits)
  moreover from Nil have "rest = stdin w"
    by simp
  moreover from Nil.prems(4) obtain k where "d = Suc k" "2 \<le> k"
    by (cases d) auto
  ultimately show ?case
    by (simp add: play_Guess)
next
  case (Cons answer answers)
  from Cons.prems(1) obtain p t pos neg ns where
    q: "lookup (heap w) node = Some (Question p t pos neg)"
    and ns: "path (heap w) (if answer then pos else neg) answers = Some ns"
    and nodes: "nodes = node # ns"
    by (auto split: option.splits node.splits)
  from Cons.prems(3) obtain line ls where
    lines: "lines = line # ls" and line: "says line answer" and ls: "list_all2 says ls answers"
    by (auto simp: list_all2_Cons2)
  from Cons.prems(4) obtain k where d: "d = Suc k" and k: "2 \<le> k" "length answers + 2 < k"
    by (cases d) auto
  let ?w1 = "w\<lparr>stdin := ls @ rest, stdout := stdout w @ [(t @ ''?'') @ '' '']\<rparr>"
  have ask: "get_yes_or_no (t @ ''?'') w = Inr (answer, ?w1)"
    using Cons.prems(2) lines line by (simp add: get_yes_or_no_says)
  have ne: "ns \<noteq> []"
    using ns by (rule path_nonempty)
  have "play d node w = play k (if answer then pos else neg) ?w1"
    unfolding d using q ask k(1) by (rule play_Question)
  also have "\<dots> = do_guess (last ns)
      (?w1\<lparr>stdin := rest, stdout := stdout ?w1 @ map (asked (heap ?w1)) (butlast ns)\<rparr>)"
    using ns ls k(2) by (intro Cons.IH) simp_all
  also have "\<dots> = do_guess (last nodes)
      (w\<lparr>stdin := rest, stdout := stdout w @ map (asked (heap w)) (butlast nodes)\<rparr>)"
    using nodes ne q by simp
  finally show ?case .
qed

theorem play_follows_path_witness:
  "path (heap (start [''n'', ''Y'', ''yes''] three_animal_tree 2)) 2 [False, True] = Some [2, 4, 3] \<and>
   stdin (start [''n'', ''Y'', ''yes''] three_animal_tree 2) = [''n'', ''Y''] @ [''yes''] \<and>
   list_all2 says [''n'', ''Y''] [False, True] \<and>
   length [False, True] + 2 < recursion_limit - 1 \<and>
   play (recursion_limit - 1) 2 (start [''n'', ''Y'', ''yes''] three_animal_tree 2) =
     do_guess 3
       (start [''n'', ''Y'', ''yes''] three_animal_tree 2
          \<lparr>stdin := [''yes''], stdout := [''Does it meow? '', ''Can it fly? '']\<rparr>)"
proof -
  let ?w = "start [''n'', ''Y'', ''yes''] three_animal_tree 2"
  have p: "path (heap ?w) 2 [False, True] = Some [2, 4, 3]"
    by code_simp
  have i: "stdin ?w = [''n'', ''Y''] @ [''yes'']"
    by (simp add: start_def)
  have a: "list_all2 says [''n'', ''Y''] [False, True]"
    by (simp add: says_def str_simps)
  have d: "length [False, True] + 2 < recursion_limit - 1"
    by (simp add: recursion_limit_def)
  have out: "stdout ?w @ map (asked (heap ?w)) (butlast [2, 4, 3]) =
               [''Does it meow? '', ''Can it fly? '']"
    by (simp add: start_def three_animal_tree_def lookup_def)
  from play_follows_path [OF p i a d] p i a d show ?thesis
    unfolding out by simp
qed

section \<open>Parent links after a teach\<close>

text \<open>
  Claim C1: after any teach, for every Question node of the resulting tree, the parent reference
  of both its children is that Question node; in particular the new Question node's parent is
  the Question above the taught node. The code builds the new Question with
  \<^verbatim>\<open>parent=None\<close> and its update of the parents sets the two Guess nodes only. In the tree
  of a question with the guesses cat and dog, where the invariant holds at every node, teaching
  at dog puts the new Question in the root's negative slot with no parent: the invariant fails
  at the root.
\<close>

theorem new_question_has_no_parent:
  "list_all (parent_links cat_dog_tree) [0, 1, 2] \<and>
   map_sum id (\<lambda>w. (root_node w, heap w))
     (play (recursion_limit - 1) 2 (start [''no'', ''no'', ''bird'', ''yes'', ''Can it fly?'', ''yes''] cat_dog_tree 2)) =
     Inr (2, [Guess (Some 4) ''dog'', Guess (Some 2) ''cat'', Question None ''Does it meow'' 1 4,
              Guess (Some 4) ''bird'', Question None ''Can it fly'' 3 0]) \<and>
   \<not> parent_links
        [Guess (Some 4) ''dog'', Guess (Some 2) ''cat'', Question None ''Does it meow'' 1 4,
         Guess (Some 4) ''bird'', Question None ''Can it fly'' 3 0] 2"
  by code_simp

section \<open>The slot that is replaced\<close>

text \<open>
  Claim C2: a teach at a non-root Guess node \<open>g\<close> replaces exactly the slot of the parent that
  held \<open>g\<close>, matched by identity, also when another node is structurally equal to \<open>g\<close>.
  The code compares with \<^verbatim>\<open>==\<close>, the negative slot first. A first round that names the
  animal dog again yields a question whose two children are distinct and equal; a teach at the
  positive child (address 1) then gives the new Question to the negative slot, leaves the
  positive slot holding the taught node, and drops the old negative child (address 0) from the
  tree.
\<close>

theorem equal_sibling_is_replaced:
  "map_sum id (\<lambda>w. (root_node w, heap w))
     (main (start [''no'', ''dog'', ''yes'', ''is it big'', ''yes''] [] 0)) = Inr (2, dog_dog_tree) \<and>
   lookup dog_dog_tree 2 = Some (Question None ''Is it big'' 1 0) \<and>
   map_sum id (\<lambda>w. (root_node w, heap w))
     (play (recursion_limit - 1) 2 (start [''yes'', ''no'', ''wolf'', ''yes'', ''Does it howl'', ''yes''] dog_dog_tree 2)) =
     Inr (2, [Guess (Some 2) ''dog'', Guess (Some 4) ''dog'', Question None ''Is it big'' 1 4,
              Guess (Some 4) ''wolf'', Question None ''Does it howl'' 3 1])"
  by code_simp

section \<open>Construction of nodes\<close>

text \<open>
  Claim C9: constructing a Guess node with a name that is empty after trimming, or a Question
  node with an empty text, fails with an InvalidInput error, and construction succeeds for every
  non-empty trimmed input. The dataclasses define no validation: a node with an empty text is
  constructed like any other, and a teach whose question line is \<^verbatim>\<open>?\<close> does construct a
  Question node with the empty text.
\<close>

theorem empty_texts_are_constructed:
  "strip [] = [] \<and>
   alloc (Guess None []) [] = (0, [Guess None []]) \<and>
   alloc (Question None [] 1 0) [Guess None ''dog'', Guess None ''cat''] =
     (2, [Guess None ''dog'', Guess None ''cat'', Question None [] 1 0]) \<and>
   map_sum id (\<lambda>(r, w). (r, heap w))
     (add_new_question 0 (start [''cat'', ''y'', ''?'', ''y''] [Guess None ''dog''] 0)) =
     Inr ((2, 1), [Guess (Some 2) ''dog'', Guess (Some 2) ''cat'', Question None [] 1 0])"
  by code_simp

text \<open>
  Claim C9, amended: constructing a Guess node or a Question node never fails; the constructor
  stores the name or the text as given, empty or not, in a new object.
\<close>

theorem constructors_accept_every_text:
  "alloc (Guess parent animal_name) h = (length h, h @ [Guess parent animal_name]) \<and>
   lookup (h @ [Guess parent animal_name]) (length h) = Some (Guess parent animal_name) \<and>
   alloc (Question parent question pos neg) h = (length h, h @ [Question parent question pos neg]) \<and>
   lookup (h @ [Question parent question pos neg]) (length h) =
     Some (Question parent question pos neg)"
  by (simp add: alloc_def lookup_def)

end
